theory Spec2Isabelle
  imports Main "HOL-Library.Word" "HOL-Library.AList"
begin

section \<open>Values\<close>

text \<open>
  The program is a single Python script, \<^verbatim>\<open>main.py\<close>, that mirrors a directory tree into a
  blob container. Python \<^verbatim>\<open>str\<close> values are modelled as \<open>string\<close> (UTF-8 bytes; every
  character the script inspects, \<^verbatim>\<open>/\<close>, \<^verbatim>\<open>.\<close>, \<^verbatim>\<open>:\<close>, is ASCII), \<^verbatim>\<open>bytes\<close> values as lists of
  8-bit words, and exceptions as values of the type \<open>exn\<close>. The script distinguishes one
  exception class only, \<^verbatim>\<open>ResourceNotFoundError\<close>; every other instance of \<^verbatim>\<open>Exception\<close>
  (\<^verbatim>\<open>KeyError\<close>, \<^verbatim>\<open>ValueError\<close>, \<^verbatim>\<open>OSError\<close>, the other errors of the storage client) is
  \<open>Exception\<close>. Both carry the text that \<^verbatim>\<open>str(err)\<close> gives.
\<close>

type_synonym bytes = "8 word list"

datatype exn = ResourceNotFoundError string | Exception string

fun str :: "exn \<Rightarrow> string" where
  "str (ResourceNotFoundError m) = m"
| "str (Exception m) = m"

section \<open>String and path functions of the standard library\<close>

text \<open>
  The script calls \<^verbatim>\<open>str.lstrip\<close>, \<^verbatim>\<open>os.path.join\<close> and \<^verbatim>\<open>os.path.relpath\<close>. They are
  modelled after \<^verbatim>\<open>posixpath\<close>: the separator is \<^verbatim>\<open>/\<close>.
\<close>

definition lstrip :: "string \<Rightarrow> string \<Rightarrow> string" where
  "lstrip s chars = dropWhile (\<lambda>c. c \<in> set chars) s"

definition startswith :: "string \<Rightarrow> string \<Rightarrow> bool" where
  "startswith s p = (take (length p) s = p)"

definition endswith :: "string \<Rightarrow> string \<Rightarrow> bool" where
  "endswith s p = (length p \<le> length s \<and> drop (length s - length p) s = p)"

text \<open>\<^verbatim>\<open>s.split(sep)\<close> for a one-character separator: \<^verbatim>\<open>"".split("/") == [""]\<close>.\<close>

fun split :: "string \<Rightarrow> char \<Rightarrow> string list" where
  "split [] sep = [[]]"
| "split (x # xs) sep =
     (if x = sep then [] # split xs sep
      else (case split xs sep of [] \<Rightarrow> [[x]] | y # ys \<Rightarrow> (x # y) # ys))"

text \<open>\<^verbatim>\<open>sep.join(xs)\<close>.\<close>

fun sep_join :: "string \<Rightarrow> string list \<Rightarrow> string" where
  "sep_join sep [] = []"
| "sep_join sep [x] = x"
| "sep_join sep (x # y # ys) = x @ sep @ sep_join sep (y # ys)"

text \<open>
  \<^verbatim>\<open>posixpath.join(a, *p)\<close>: a component that starts with the separator discards what
  came before it; otherwise a separator is put in unless the path so far is empty or
  already ends with one.
\<close>

definition join_step :: "string \<Rightarrow> string \<Rightarrow> string" where
  "join_step path b =
     (if startswith b ''/'' then b
      else if path = [] \<or> endswith path ''/'' then path @ b
      else path @ ''/'' @ b)"

definition os_path_join :: "string \<Rightarrow> string list \<Rightarrow> string" where
  "os_path_join a p = foldl join_step a p"

definition isabs :: "string \<Rightarrow> bool" where
  "isabs s = startswith s ''/''"

text \<open>
  \<^verbatim>\<open>posixpath.normpath\<close>. The loop over the components keeps \<open>new_comps\<close>; \<open>initial_slashes\<close>
  is 0, 1 or 2 (exactly two leading slashes are kept, three or more count as one).
\<close>

definition normpath_step :: "nat \<Rightarrow> string list \<Rightarrow> string \<Rightarrow> string list" where
  "normpath_step initial_slashes new_comps cmp =
     (if cmp = [] \<or> cmp = ''.'' then new_comps
      else if cmp \<noteq> ''..'' \<or> (initial_slashes = 0 \<and> new_comps = [])
              \<or> (new_comps \<noteq> [] \<and> last new_comps = ''..'')
           then new_comps @ [cmp]
      else if new_comps \<noteq> [] then butlast new_comps
      else new_comps)"

definition normpath :: "string \<Rightarrow> string" where
  "normpath path =
     (if path = [] then ''.''
      else
        let initial_slashes =
              (if startswith path ''/''
               then (if startswith path ''//'' \<and> \<not> startswith path ''///'' then 2 else 1)
               else 0);
            comps = foldl (normpath_step initial_slashes) [] (split path CHR ''/'');
            path' = replicate initial_slashes CHR ''/'' @ sep_join ''/'' comps
        in if path' = [] then ''.'' else path')"

text \<open>\<^verbatim>\<open>posixpath.abspath\<close>; the working directory \<^verbatim>\<open>os.getcwd()\<close> is the argument \<open>cwd\<close>.\<close>

definition abspath :: "string \<Rightarrow> string \<Rightarrow> string" where
  "abspath cwd path = normpath (if isabs path then path else os_path_join cwd [path])"

text \<open>\<^verbatim>\<open>os.path.commonprefix\<close> of two component lists.\<close>

fun commonprefix :: "string list \<Rightarrow> string list \<Rightarrow> string list" where
  "commonprefix (x # xs) (y # ys) = (if x = y then x # commonprefix xs ys else [])"
| "commonprefix _ _ = []"

text \<open>\<^verbatim>\<open>posixpath.relpath(path, start)\<close>; an empty \<open>path\<close> raises \<^verbatim>\<open>ValueError\<close>.\<close>

definition os_path_relpath :: "string \<Rightarrow> string \<Rightarrow> string \<Rightarrow> exn + string" where
  "os_path_relpath cwd path start =
     (if path = [] then Inl (Exception ''no path specified'')
      else
        let start_list = filter (\<lambda>x. x \<noteq> []) (split (abspath cwd start) CHR ''/'');
            path_list = filter (\<lambda>x. x \<noteq> []) (split (abspath cwd path) CHR ''/'');
            i = length (commonprefix start_list path_list);
            rel_list = replicate (length start_list - i) ''..'' @ drop i path_list
        in (case rel_list of
              [] \<Rightarrow> Inr ''.''
            | r # rs \<Rightarrow> Inr (os_path_join r rs)))"

text \<open>
  \<^verbatim>\<open>posixpath.splitext\<close>: the extension starts at the last dot of the last path
  component, provided some character of that component before the dot is not a dot
  (leading dots do not start an extension). \<open>rname\<close> is the last component reversed,
  \<open>rext\<close> the text after its last dot, reversed.
\<close>

definition splitext :: "string \<Rightarrow> string \<times> string" where
  "splitext p =
     (let rname = takeWhile (\<lambda>c. c \<noteq> CHR ''/'') (rev p);
          rext = takeWhile (\<lambda>c. c \<noteq> CHR ''.'') rname;
          n = Suc (length rext)
      in if length rext < length rname \<and> list_ex (\<lambda>c. c \<noteq> CHR ''.'') (drop n rname)
         then (take (length p - n) p, drop (length p - n) p)
         else (p, []))"

text \<open>\<^verbatim>\<open>str.lower\<close> on the ASCII letters.\<close>

definition lower_char :: "char \<Rightarrow> char" where
  "lower_char c =
     (case map_of (zip ''ABCDEFGHIJKLMNOPQRSTUVWXYZ'' ''abcdefghijklmnopqrstuvwxyz'') c of
        None \<Rightarrow> c
      | Some l \<Rightarrow> l)"

definition lower :: "string \<Rightarrow> string" where
  "lower s = map lower_char s"

section \<open>The module \<^verbatim>\<open>mimetypes\<close>\<close>

text \<open>
  \<^verbatim>\<open>mimetypes.guess_type(url)\<close> as in CPython 3.8 to 3.10 (the script does not say which
  interpreter it runs on). From 3.11 on the function looks the extension up in
  \<^verbatim>\<open>suffix_map\<close> and in \<^verbatim>\<open>types_map\<close> in lower case only, and its URL parser raises
  \<^verbatim>\<open>ValueError\<close> on some malformed URLs; for an extension that is in lower case already and
  a path without a URL scheme the two agree. The tables \<^verbatim>\<open>suffix_map\<close> and
  \<^verbatim>\<open>encodings_map\<close> are the module's constants. The table \<^verbatim>\<open>types_map\<close> depends on the
  system (\<^verbatim>\<open>mimetypes.init()\<close> reads the system's \<^verbatim>\<open>mime.types\<close> files into it), so it is
  an argument.
\<close>

definition suffix_map :: "string \<rightharpoonup> string" where
  "suffix_map = map_of
     [(''.svgz'', ''.svg.gz''), (''.tgz'', ''.tar.gz''), (''.taz'', ''.tar.gz''),
      (''.tz'', ''.tar.gz''), (''.tbz2'', ''.tar.bz2''), (''.txz'', ''.tar.xz'')]"

definition encodings_map :: "string \<rightharpoonup> string" where
  "encodings_map = map_of
     [(''.gz'', ''gzip''), (''.Z'', ''compress''), (''.bz2'', ''bzip2''), (''.xz'', ''xz''),
      (''.br'', ''br'')]"

text \<open>
  \<^verbatim>\<open>urllib.parse._splittype\<close>: the regular expression \<^verbatim>\<open>([^/:]+):(.*)\<close> matched at the
  start of the string; the scheme comes back in lower case.
\<close>

definition splittype :: "string \<Rightarrow> string option \<times> string" where
  "splittype url =
     (let scheme = takeWhile (\<lambda>c. c \<noteq> CHR ''/'' \<and> c \<noteq> CHR '':'') url;
          rest = drop (length scheme) url
      in if scheme \<noteq> [] \<and> startswith rest '':'' then (Some (lower scheme), tl rest)
         else (None, url))"

lemma suffix_map_range:
  "suffix_map ext = Some s \<Longrightarrow> s \<in> {''.svg.gz'', ''.tar.gz'', ''.tar.bz2'', ''.tar.xz''}"
  by (simp add: suffix_map_def split: if_splits)

lemma splitext_suffix_map_value:
  assumes "s \<in> {''.svg.gz'', ''.tar.gz'', ''.tar.bz2'', ''.tar.xz''}"
  shows "snd (splitext (base @ s)) \<in> {''.gz'', ''.bz2'', ''.xz''}"
proof -
  have "splitext (base @ ''.svg.gz'') = (base @ ''.svg'', ''.gz'')"
    by (simp add: splitext_def)
  moreover have "splitext (base @ ''.tar.gz'') = (base @ ''.tar'', ''.gz'')"
    by (simp add: splitext_def)
  moreover have "splitext (base @ ''.tar.bz2'') = (base @ ''.tar'', ''.bz2'')"
    by (simp add: splitext_def)
  moreover have "splitext (base @ ''.tar.xz'') = (base @ ''.tar'', ''.xz'')"
    by (simp add: splitext_def)
  ultimately show ?thesis
    using assms by auto
qed

lemma suffix_map_step_leaves:
  assumes "suffix_map ext = Some s"
  shows "suffix_map (snd (splitext (base @ s))) = None"
proof -
  have "snd (splitext (base @ s)) \<in> {''.gz'', ''.bz2'', ''.xz''}"
    using assms suffix_map_range splitext_suffix_map_value by blast
  then show ?thesis
    by (auto simp: suffix_map_def)
qed

text \<open>
  The loop \<^verbatim>\<open>while ext in suffix_map: base, ext = splitext(base + suffix_map[ext])\<close>.
  It ends because no extension that \<^verbatim>\<open>suffix_map\<close> produces is one of its keys.
\<close>

function suffix_loop :: "string \<Rightarrow> string \<Rightarrow> string \<times> string" where
  "suffix_loop base ext =
     (case suffix_map ext of
        None \<Rightarrow> (base, ext)
      | Some s \<Rightarrow> suffix_loop (fst (splitext (base @ s))) (snd (splitext (base @ s))))"
  by pat_completeness auto
termination
  by (relation "measure (\<lambda>(base, ext). if suffix_map ext = None then 0 else 1)")
     (simp_all add: suffix_map_step_leaves case_prod_unfold)

text \<open>
  \<^verbatim>\<open>MimeTypes.guess_type(url, strict=True)\<close>. The argument is parsed as a URL first: a
  \<^verbatim>\<open>data:\<close> URL gets its declared media type, any other scheme is cut off. The result is
  the pair \<^verbatim>\<open>(type, encoding)\<close>, \<open>None\<close> for Python's \<^verbatim>\<open>None\<close>.
\<close>

definition guess_type :: "(string \<rightharpoonup> string) \<Rightarrow> string \<Rightarrow> string option \<times> string option" where
  "guess_type types_map url0 =
     (case splittype url0 of (scheme, url) \<Rightarrow>
        if scheme = Some ''data'' then
          (if CHR '','' \<notin> set url then (None, None)
           else
             let type = takeWhile (\<lambda>c. c \<noteq> CHR '';'') (takeWhile (\<lambda>c. c \<noteq> CHR '','') url)
             in (Some (if CHR ''='' \<in> set type \<or> CHR ''/'' \<notin> set type then ''text/plain'' else type),
                 None))
        else
          (case suffix_loop (fst (splitext url)) (snd (splitext url)) of (base, ext) \<Rightarrow>
             let encoding = encodings_map ext;
                 ext' = (if encoding = None then ext else snd (splitext base))
             in (case types_map ext' of
                   Some t \<Rightarrow> (Some t, encoding)
                 | None \<Rightarrow>
                     (case types_map (lower ext') of
                        Some t \<Rightarrow> (Some t, encoding)
                      | None \<Rightarrow> (None, encoding)))))"

section \<open>The storage client\<close>

text \<open>
  \<^verbatim>\<open>ContentSettings\<close> and \<^verbatim>\<open>BlobProperties\<close> of \<^verbatim>\<open>azure.storage.blob\<close>, with the fields the
  script sets or reads. A field that Python leaves at \<^verbatim>\<open>None\<close> is \<open>None\<close>. The constructor
  call \<^verbatim>\<open>ContentSettings(content_type=...)\<close> leaves every other field, \<^verbatim>\<open>content_md5\<close> among
  them, at \<^verbatim>\<open>None\<close>.
\<close>

record ContentSettings =
  content_type :: "string option"
  content_md5 :: "bytes option"

record BlobProperties =
  content_settings :: ContentSettings

text \<open>
  The container behind the client is a state of type \<open>'s\<close>; the client library is not part
  of the program, so its four operations are arguments, collected in a record. Each may
  raise. An upload or a delete that raises may still have changed the container.
  \<^verbatim>\<open>list_blobs\<close> returns a lazy iterator: it yields names and may then raise, so its result
  is the list of the names it yields together with the exception that ends it, if any.
\<close>

record 's ContainerClient =
  from_connection_string :: "string \<Rightarrow> string \<Rightarrow> exn + 's"
  get_blob_properties :: "'s \<Rightarrow> string \<Rightarrow> exn + BlobProperties"
  upload_blob :: "'s \<Rightarrow> string \<Rightarrow> bytes \<Rightarrow> bool \<Rightarrow> ContentSettings \<Rightarrow> exn option \<times> 's"
  list_blobs :: "'s \<Rightarrow> string \<Rightarrow> string list \<times> exn option"
  delete_blob :: "'s \<Rightarrow> string \<Rightarrow> exn option \<times> 's"

text \<open>The rest of the environment: file system, working directory, digest, MIME table.\<close>

record sys =
  environ :: "string \<rightharpoonup> string"
  getcwd :: string
  os_walk :: "string \<Rightarrow> (string \<times> string list \<times> string list) list"
  open_read :: "string \<Rightarrow> exn + bytes"
  hashlib_md5 :: "bytes \<Rightarrow> bytes"
  mimetypes_init :: "string \<rightharpoonup> string"

record args =
  SOURCE :: string
  DEST :: string
  sync :: bool
  container :: string

section \<open>The script\<close>

text \<open>
  The state of a run: the container, the set \<^verbatim>\<open>files_to_keep\<close>, what has been printed,
  and the calls made to the storage service so far, each with the exception it raised, if
  any. The list of calls is not a variable of the script: it records what the script did.
\<close>

datatype call =
  GetBlobProperties string
| UploadBlob string bytes bool ContentSettings
| ListBlobs string
| DeleteBlob string

record 's state =
  store :: 's
  files_to_keep :: "string set"
  stdout :: string
  calls :: "(call \<times> exn option) list"

definition print :: "string \<Rightarrow> string \<Rightarrow> 's state \<Rightarrow> 's state" where
  "print s end_str st = st\<lparr>stdout := stdout st @ s @ end_str\<rparr>"

definition record_call :: "call \<Rightarrow> exn option \<Rightarrow> 's state \<Rightarrow> 's state" where
  "record_call c r st = st\<lparr>calls := calls st @ [(c, r)]\<rparr>"

text \<open>Lines 22 and 23: the two overrides written into \<^verbatim>\<open>mimetypes.types_map\<close>.\<close>

definition types_map :: "sys \<Rightarrow> string \<rightharpoonup> string" where
  "types_map sys =
     (mimetypes_init sys)(''.map'' \<mapsto> ''application/octet-stream'',
                          ''.ttf'' \<mapsto> ''application/octet-stream'')"

text \<open>Lines 28 to 37.\<close>

definition md5 :: "sys \<Rightarrow> bytes \<Rightarrow> bytes" where
  "md5 sys file_data = hashlib_md5 sys file_data"

text \<open>Lines 42 and 49: the destination prefix and the destination key of a file.\<close>

definition dest_prefix :: "args \<Rightarrow> string" where
  "dest_prefix a = lstrip (DEST a) ''/''"

definition dest_path_of :: "sys \<Rightarrow> args \<Rightarrow> string \<Rightarrow> exn + string" where
  "dest_path_of sys a path =
     (case os_path_relpath (getcwd sys) path (SOURCE a) of
        Inl e \<Rightarrow> Inl e
      | Inr rel \<Rightarrow> Inr (os_path_join (dest_prefix a) [rel]))"

text \<open>The arrow of the progress line is U+2B62, three bytes in UTF-8.\<close>

definition uploading_line :: "string \<Rightarrow> string \<Rightarrow> string" where
  "uploading_line path dest_path =
     ''Uploading '' @ path @ '' '' @ [CHR 0xE2, CHR 0xAD, CHR 0xA2] @ '' '' @ dest_path @ ''... ''"

text \<open>
  Lines 62 to 66: the stored MD5 of the destination blob. Only \<^verbatim>\<open>ResourceNotFoundError\<close> is
  caught, and gives the empty byte string; any other exception leaves the script.
\<close>

definition fetch_dest_md5 ::
  "'s ContainerClient \<Rightarrow> string \<Rightarrow> 's state \<Rightarrow> (exn \<times> 's state) + (bytes option \<times> 's state)" where
  "fetch_dest_md5 client dest_path st =
     (case get_blob_properties client (store st) dest_path of
        Inr blob_settings \<Rightarrow>
          Inr (content_md5 (content_settings blob_settings),
               record_call (GetBlobProperties dest_path) None st)
      | Inl (ResourceNotFoundError m) \<Rightarrow>
          Inr (Some [], record_call (GetBlobProperties dest_path) (Some (ResourceNotFoundError m)) st)
      | Inl (Exception m) \<Rightarrow>
          Inl (Exception m, record_call (GetBlobProperties dest_path) (Some (Exception m)) st))"

text \<open>Lines 70 to 73.\<close>

definition resolve_content_type :: "sys \<Rightarrow> string \<Rightarrow> string" where
  "resolve_content_type sys path =
     (case fst (guess_type (types_map sys) path) of
        None \<Rightarrow> ''application/octet-stream''
      | Some t \<Rightarrow> if t = [] then ''application/octet-stream'' else t)"

definition new_content_settings :: "string \<Rightarrow> ContentSettings" where
  "new_content_settings t = \<lparr>content_type = Some t, content_md5 = None\<rparr>"

text \<open>
  Lines 75 to 83. \<open>dest_md5\<close> is a byte string or \<^verbatim>\<open>None\<close>, and \<^verbatim>\<open>!=\<close> compares it with the
  digest by value.
\<close>

definition upload_if_changed ::
  "'s ContainerClient \<Rightarrow> string \<Rightarrow> bytes \<Rightarrow> bytes \<Rightarrow> bytes option \<Rightarrow> ContentSettings \<Rightarrow>
   's state \<Rightarrow> 's state" where
  "upload_if_changed client dest_path file_data md5_hash dest_md5 settings st =
     (if Some md5_hash \<noteq> dest_md5 then
        (case upload_blob client (store st) dest_path file_data True settings of
           (None, s') \<Rightarrow>
             print ''done'' ''\<newline>''
               (record_call (UploadBlob dest_path file_data True settings) None (st\<lparr>store := s'\<rparr>))
         | (Some err, s') \<Rightarrow>
             print (''failed, error: '' @ str err) ''\<newline>''
               (record_call (UploadBlob dest_path file_data True settings) (Some err)
                  (st\<lparr>store := s'\<rparr>)))
      else print ''skipped'' ''\<newline>'' st)"

text \<open>Lines 48 to 83: the body of the inner loop, for one file of one directory.\<close>

definition upload_file ::
  "sys \<Rightarrow> 's ContainerClient \<Rightarrow> args \<Rightarrow> 's state \<Rightarrow> string \<Rightarrow> string \<Rightarrow>
   (exn \<times> 's state) + 's state" where
  "upload_file sys client a st root file =
     (let path = os_path_join root [file] in
      case dest_path_of sys a path of
        Inl e \<Rightarrow> Inl (e, st)
      | Inr dest_path \<Rightarrow>
          let st1 = st\<lparr>files_to_keep := insert dest_path (files_to_keep st)\<rparr>;
              st2 = print (uploading_line path dest_path) [] st1
          in (case open_read sys path of
                Inl e \<Rightarrow> Inl (e, st2)
              | Inr file_data \<Rightarrow>
                  (case fetch_dest_md5 client dest_path st2 of
                     Inl e \<Rightarrow> Inl e
                   | Inr (dest_md5, st3) \<Rightarrow>
                       Inr (upload_if_changed client dest_path file_data (md5 sys file_data)
                              dest_md5 (new_content_settings (resolve_content_type sys path))
                              st3))))"

text \<open>Lines 45 and 46: the two loops of the walk. An exception ends both.\<close>

fun upload_files ::
  "sys \<Rightarrow> 's ContainerClient \<Rightarrow> args \<Rightarrow> 's state \<Rightarrow> string \<Rightarrow> string list \<Rightarrow>
   (exn \<times> 's state) + 's state" where
  "upload_files sys client a st root [] = Inr st"
| "upload_files sys client a st root (file # files) =
     (case upload_file sys client a st root file of
        Inl e \<Rightarrow> Inl e
      | Inr st' \<Rightarrow> upload_files sys client a st' root files)"

fun upload_walk ::
  "sys \<Rightarrow> 's ContainerClient \<Rightarrow> args \<Rightarrow> 's state \<Rightarrow> (string \<times> string list \<times> string list) list \<Rightarrow>
   (exn \<times> 's state) + 's state" where
  "upload_walk sys client a st [] = Inr st"
| "upload_walk sys client a st ((root, dirs, files) # rest) =
     (case upload_files sys client a st root files of
        Inl e \<Rightarrow> Inl e
      | Inr st' \<Rightarrow> upload_walk sys client a st' rest)"

definition upload_phase ::
  "sys \<Rightarrow> 's ContainerClient \<Rightarrow> args \<Rightarrow> 's state \<Rightarrow> (exn \<times> 's state) + 's state" where
  "upload_phase sys client a st = upload_walk sys client a st (os_walk sys (SOURCE a))"

text \<open>Lines 88 to 95: the body of the loop over the listed blobs.\<close>

definition delete_if_stale :: "'s ContainerClient \<Rightarrow> 's state \<Rightarrow> string \<Rightarrow> 's state" where
  "delete_if_stale client st name =
     (if name \<notin> files_to_keep st then
        (let st1 = print (''Deleting '' @ name @ ''... '') [] st in
         case delete_blob client (store st1) name of
           (None, s') \<Rightarrow>
             print ''done'' ''\<newline>'' (record_call (DeleteBlob name) None (st1\<lparr>store := s'\<rparr>))
         | (Some err, s') \<Rightarrow>
             print (''failed, error: '' @ str err) ''\<newline>''
               (record_call (DeleteBlob name) (Some err) (st1\<lparr>store := s'\<rparr>)))
      else st)"

definition delete_stale :: "'s ContainerClient \<Rightarrow> 's state \<Rightarrow> string list \<Rightarrow> 's state" where
  "delete_stale client st names = foldl (delete_if_stale client) st names"

text \<open>Lines 85 to 95.\<close>

definition reconcile_phase ::
  "'s ContainerClient \<Rightarrow> args \<Rightarrow> 's state \<Rightarrow> (exn \<times> 's state) + 's state" where
  "reconcile_phase client a st =
     (if sync a then
        (case list_blobs client (store st) (dest_prefix a) of
           (names, err) \<Rightarrow>
             let st' = delete_stale client (record_call (ListBlobs (dest_prefix a)) err st) names
             in (case err of None \<Rightarrow> Inr st' | Some e \<Rightarrow> Inl (e, st')))
      else Inr st)"

text \<open>Lines 40 to 95: the body of the \<^verbatim>\<open>with\<close> block, from a connected client.\<close>

definition initial_state :: "'s \<Rightarrow> 's state" where
  "initial_state s = \<lparr>store = s, files_to_keep = {}, stdout = [], calls = []\<rparr>"

definition sync_container ::
  "sys \<Rightarrow> 's ContainerClient \<Rightarrow> args \<Rightarrow> 's \<Rightarrow> (exn \<times> 's state) + 's state" where
  "sync_container sys client a s =
     (case upload_phase sys client a (initial_state s) of
        Inl e \<Rightarrow> Inl e
      | Inr st \<Rightarrow> reconcile_phase client a st)"

text \<open>
  The whole script. Line 25 raises \<^verbatim>\<open>KeyError\<close> when the variable is not set (its text is
  the name of the variable in quotes), line 40 may raise while the client is made; in both
  cases nothing has been done yet.
\<close>

definition main ::
  "sys \<Rightarrow> 's ContainerClient \<Rightarrow> args \<Rightarrow> (exn \<times> 's state option) + 's state" where
  "main sys client a =
     (case environ sys ''CONNECTION_STRING'' of
        None \<Rightarrow> Inl (Exception ([CHR 0x27] @ ''CONNECTION_STRING'' @ [CHR 0x27]), None)
      | Some connection_string \<Rightarrow>
          (case from_connection_string client connection_string (container a) of
             Inl e \<Rightarrow> Inl (e, None)
           | Inr s \<Rightarrow>
               (case sync_container sys client a s of
                  Inl (e, st) \<Rightarrow> Inl (e, Some st)
                | Inr st \<Rightarrow> Inr st)))"

section \<open>A container in memory\<close>

text \<open>
  An instance of the client for running the script on concrete inputs: the container is
  an association list from blob names to blobs. The storage service fills in the content
  MD5 of a blob that is uploaded in one request without one, and does not when it is
  uploaded in blocks; \<open>service_md5\<close> is the digest the service applies, \<open>None\<close> for a
  service that stores the settings as they are sent. \<open>fails\<close> injects exceptions: it maps
  a call to the exception it raises.
\<close>

record blob =
  blob_data :: bytes
  blob_settings :: ContentSettings

type_synonym blobs = "(string \<times> blob) list"

definition stored_settings :: "(bytes \<Rightarrow> bytes) option \<Rightarrow> bytes \<Rightarrow> ContentSettings \<Rightarrow> ContentSettings" where
  "stored_settings service_md5 file_data settings =
     (case content_md5 settings of
        Some m \<Rightarrow> settings
      | None \<Rightarrow> settings\<lparr>content_md5 := map_option (\<lambda>h. h file_data) service_md5\<rparr>)"

definition mem_client ::
  "(bytes \<Rightarrow> bytes) option \<Rightarrow> (call \<rightharpoonup> exn) \<Rightarrow> blobs \<Rightarrow> blobs ContainerClient" where
  "mem_client service_md5 fails initial =
     \<lparr>from_connection_string = (\<lambda>connection_string name. Inr initial),
      get_blob_properties = (\<lambda>s name.
        case fails (GetBlobProperties name) of
          Some e \<Rightarrow> Inl e
        | None \<Rightarrow>
            (case map_of s name of
               None \<Rightarrow> Inl (ResourceNotFoundError ''BlobNotFound'')
             | Some b \<Rightarrow> Inr \<lparr>content_settings = blob_settings b\<rparr>)),
      upload_blob = (\<lambda>s name file_data overwrite settings.
        case fails (UploadBlob name file_data overwrite settings) of
          Some e \<Rightarrow> (Some e, s)
        | None \<Rightarrow>
            if \<not> overwrite \<and> map_of s name \<noteq> None then (Some (Exception ''BlobAlreadyExists''), s)
            else (None, AList.update name
                          \<lparr>blob_data = file_data,
                           blob_settings = stored_settings service_md5 file_data settings\<rparr> s)),
      list_blobs = (\<lambda>s name_starts_with.
        (filter (\<lambda>name. startswith name name_starts_with) (map fst s),
         fails (ListBlobs name_starts_with))),
      delete_blob = (\<lambda>s name.
        case fails (DeleteBlob name) of
          Some e \<Rightarrow> (Some e, s)
        | None \<Rightarrow>
            if map_of s name = None then (Some (ResourceNotFoundError ''BlobNotFound''), s)
            else (None, AList.delete name s))\<rparr>"

text \<open>
  A file system in memory: \<open>tree\<close> is what \<^verbatim>\<open>os.walk\<close> yields for the source directory,
  \<open>contents\<close> maps a path to the bytes of the file. The digest \<open>digest16\<close> stands in for
  MD5 on concrete runs: it returns 16 bytes, as MD5 does.
\<close>

definition digest16 :: "bytes \<Rightarrow> bytes" where
  "digest16 file_data = take 16 (file_data @ replicate 16 0)"

definition mem_sys ::
  "(string \<times> string list \<times> string list) list \<Rightarrow> (string \<times> bytes) list \<Rightarrow> sys" where
  "mem_sys tree contents =
     \<lparr>environ = [''CONNECTION_STRING'' \<mapsto> ''UseDevelopmentStorage=true''],
      getcwd = ''/home/user'',
      os_walk = (\<lambda>top. tree),
      open_read = (\<lambda>path.
        case map_of contents path of
          None \<Rightarrow> Inl (Exception ''No such file or directory'')
        | Some file_data \<Rightarrow> Inr file_data),
      hashlib_md5 = digest16,
      mimetypes_init = [''.html'' \<mapsto> ''text/html'', ''.js'' \<mapsto> ''application/javascript'',
                        ''.txt'' \<mapsto> ''text/plain'']\<rparr>"

text \<open>
  A small site: \<^verbatim>\<open>/a/index.html\<close>, \<^verbatim>\<open>/a/sub/x.txt\<close> and \<^verbatim>\<open>/a/sub/app.js.map\<close>, synchronised to
  the prefix \<^verbatim>\<open>/site\<close>.
\<close>

definition site_sys :: sys where
  "site_sys = mem_sys
     [(''/a'', [''sub''], [''index.html'']), (''/a/sub'', [], [''x.txt'', ''app.js.map''])]
     [(''/a/index.html'', [1, 2, 3]), (''/a/sub/x.txt'', [4]), (''/a/sub/app.js.map'', [5, 6])]"

definition site_args :: args where
  "site_args = \<lparr>SOURCE = ''/a'', DEST = ''/site'', sync = True, container = ''$web''\<rparr>"

text \<open>A container whose service fails on the properties of one blob.\<close>

definition flaky_client :: "blobs ContainerClient" where
  "flaky_client =
     mem_client None [GetBlobProperties ''site/sub/x.txt'' \<mapsto> Exception ''ServiceUnavailable''] []"

text \<open>
  Five files and a container that holds two blobs no file maps to. The service fails on
  the upload of the third file and on the deletion of the first of the two blobs.
\<close>

definition five_sys :: sys where
  "five_sys = mem_sys
     [(''/a'', [], [''1.txt'', ''2.txt'', ''3.txt'', ''4.txt'', ''5.txt''])]
     [(''/a/1.txt'', [1]), (''/a/2.txt'', [2]), (''/a/3.txt'', [3]), (''/a/4.txt'', [4]),
      (''/a/5.txt'', [5])]"

definition old_blobs :: blobs where
  "old_blobs =
     [(''site/old1'', \<lparr>blob_data = [], blob_settings = \<lparr>content_type = None, content_md5 = None\<rparr>\<rparr>),
      (''site/old2'', \<lparr>blob_data = [], blob_settings = \<lparr>content_type = None, content_md5 = None\<rparr>\<rparr>)]"

definition faulty_client :: "blobs ContainerClient" where
  "faulty_client =
     mem_client None
       [UploadBlob ''site/3.txt'' [3] True \<lparr>content_type = Some ''text/plain'', content_md5 = None\<rparr>
          \<mapsto> Exception ''timed out'',
        DeleteBlob ''site/old1'' \<mapsto> Exception ''blob is leased'']
       old_blobs"

lemmas five_defs = five_sys_def old_blobs_def faulty_client_def

lemmas run_defs =
  site_sys_def site_args_def mem_sys_def mem_client_def stored_settings_def digest16_def
  dest_path_of_def dest_prefix_def lstrip_def os_path_relpath_def abspath_def isabs_def
  startswith_def endswith_def normpath_def normpath_step_def os_path_join_def join_step_def
  initial_state_def md5_def new_content_settings_def resolve_content_type_def guess_type_def
  splittype_def splitext_def suffix_map_def encodings_map_def types_map_def lower_def
  lower_char_def uploading_line_def

section \<open>Reading a run\<close>

text \<open>
  The calls a step added to the record, and the uploads among them. The stored fingerprint
  of a destination, as the upload phase reads it: the content MD5 of the blob's
  properties, and the empty byte string for a blob that does not exist.
\<close>

definition calls_since :: "'s state \<Rightarrow> 's state \<Rightarrow> (call \<times> exn option) list" where
  "calls_since st st' = drop (length (calls st)) (calls st')"

fun is_upload :: "call \<Rightarrow> bool" where
  "is_upload (UploadBlob name file_data overwrite settings) = True"
| "is_upload _ = False"

definition upload_calls :: "(call \<times> exn option) list \<Rightarrow> call list" where
  "upload_calls cs = filter is_upload (map fst cs)"

definition final_state :: "(exn \<times> 's state) + 's state \<Rightarrow> 's state" where
  "final_state r = (case r of Inl (e, st) \<Rightarrow> st | Inr st \<Rightarrow> st)"

text \<open>
  The files of a walk in the order the two loops visit them, each with its directory, and
  the upload loop over such a list.
\<close>

definition walk_files :: "(string \<times> string list \<times> string list) list \<Rightarrow> (string \<times> string) list" where
  "walk_files walk = concat (map (\<lambda>(root, dirs, files). map (Pair root) files) walk)"

fun upload_each ::
  "sys \<Rightarrow> 's ContainerClient \<Rightarrow> args \<Rightarrow> 's state \<Rightarrow> (string \<times> string) list \<Rightarrow>
   (exn \<times> 's state) + 's state" where
  "upload_each sys client a st [] = Inr st"
| "upload_each sys client a st ((root, file) # rest) =
     (case upload_file sys client a st root file of
        Inl e \<Rightarrow> Inl e
      | Inr st' \<Rightarrow> upload_each sys client a st' rest)"

text \<open>The destination keys of a list of files, in order.\<close>

definition dest_paths :: "sys \<Rightarrow> args \<Rightarrow> (string \<times> string) list \<Rightarrow> (exn + string) list" where
  "dest_paths sys a files = map (\<lambda>(root, file). dest_path_of sys a (os_path_join root [file])) files"

text \<open>The state of a step once the key is in \<^verbatim>\<open>files_to_keep\<close> and the progress line is out.\<close>

definition announced :: "string \<Rightarrow> string \<Rightarrow> 's state \<Rightarrow> 's state" where
  "announced path dest_path st =
     print (uploading_line path dest_path) []
       (st\<lparr>files_to_keep := insert dest_path (files_to_keep st)\<rparr>)"

definition stored_fingerprint :: "exn + BlobProperties \<Rightarrow> bytes option" where
  "stored_fingerprint r =
     (case r of
        Inr props \<Rightarrow> content_md5 (content_settings props)
      | Inl e \<Rightarrow> Some [])"

text \<open>
  The upload call the script makes for a file when it uploads it: the destination key, the
  bytes of the file, \<^verbatim>\<open>overwrite=True\<close>, and content settings that hold the resolved content
  type and nothing else. \<open>issued_by\<close> says that a call is this call for one of the files.
  \<open>carries_fingerprint\<close> says of an upload call that its content settings hold the MD5 of
  the bytes it uploads.
\<close>

definition upload_call_for :: "sys \<Rightarrow> args \<Rightarrow> string \<times> string \<Rightarrow> call option" where
  "upload_call_for sys a f =
     (case f of (root, file) \<Rightarrow>
        (case dest_path_of sys a (os_path_join root [file]) of
           Inl e \<Rightarrow> None
         | Inr dest_path \<Rightarrow>
             (case open_read sys (os_path_join root [file]) of
                Inl e \<Rightarrow> None
              | Inr file_data \<Rightarrow>
                  Some (UploadBlob dest_path file_data True
                          \<lparr>content_type = Some (resolve_content_type sys (os_path_join root [file])),
                           content_md5 = None\<rparr>))))"

definition issued_by :: "sys \<Rightarrow> args \<Rightarrow> (string \<times> string) list \<Rightarrow> call \<Rightarrow> bool" where
  "issued_by sys a files c = (c \<in> set (List.map_filter (upload_call_for sys a) files))"

definition carries_fingerprint :: "sys \<Rightarrow> call \<Rightarrow> bool" where
  "carries_fingerprint sys c =
     (case c of
        UploadBlob name file_data overwrite settings \<Rightarrow> content_md5 settings = Some (md5 sys file_data)
      | _ \<Rightarrow> True)"

lemmas step_defs =
  upload_phase_def upload_file_def fetch_dest_md5_def upload_if_changed_def print_def
  record_call_def final_state_def calls_since_def upload_calls_def reconcile_phase_def
  delete_stale_def delete_if_stale_def sync_container_def main_def walk_files_def

text \<open>
  Two states of the run of the five files against the failing service: after the first
  two files, and when the reconciliation has listed the blobs.
\<close>

definition after_two_uploads :: "blobs state" where
  "after_two_uploads =
     final_state (upload_each five_sys faulty_client site_args (initial_state old_blobs)
                    [(''/a'', ''1.txt''), (''/a'', ''2.txt'')])"

definition after_listing :: "blobs state" where
  "after_listing =
     record_call (ListBlobs ''site'') None
       (final_state (upload_phase five_sys faulty_client site_args (initial_state old_blobs)))"


definition all_returned :: "(call \<times> exn option) list \<Rightarrow> bool" where
  "all_returned cs = list_all (\<lambda>(c, r). r = None) cs"







text \<open>
  For two runs in a row: the upload calls of a run that all returned, what the upload
  phase prints when it skips every file, and the second of two upload phases over the
  same files, which starts from the container the first one left. A file is in sync with
  a container when its key is computed, it can be read, and the fetch of the properties
  of its blob gives a stored fingerprint equal to the digest of the file.
\<close>

definition uploads_returned :: "(call \<times> exn option) list \<Rightarrow> bool" where
  "uploads_returned cs = all_returned (filter (\<lambda>(c, r). is_upload c) cs)"

definition skipped_report :: "sys \<Rightarrow> args \<Rightarrow> (string \<times> string) list \<Rightarrow> string" where
  "skipped_report sys a files =
     concat (map (\<lambda>(root, file).
       (case dest_path_of sys a (os_path_join root [file]) of
          Inl e \<Rightarrow> []
        | Inr dest_path \<Rightarrow>
            uploading_line (os_path_join root [file]) dest_path @ ''skipped'' @ ''\<newline>'')) files)"

definition in_sync :: "sys \<Rightarrow> 's ContainerClient \<Rightarrow> args \<Rightarrow> 's \<Rightarrow> string \<times> string \<Rightarrow> bool" where
  "in_sync sys client a s f =
     (\<exists>dest_path file_data.
        dest_path_of sys a (os_path_join (fst f) [snd f]) = Inr dest_path \<and>
        open_read sys (os_path_join (fst f) [snd f]) = Inr file_data \<and>
        (\<forall>m. get_blob_properties client s dest_path \<noteq> Inl (Exception m)) \<and>
        stored_fingerprint (get_blob_properties client s dest_path) = Some (md5 sys file_data))"

definition second_run ::
  "sys \<Rightarrow> 's ContainerClient \<Rightarrow> args \<Rightarrow> 's \<Rightarrow> (exn \<times> 's state) + 's state" where
  "second_run sys client a s0 =
     upload_phase sys client a
       (initial_state (store (final_state (upload_phase sys client a (initial_state s0)))))"

text \<open>
  A plain segment is a name that is not empty, holds no separator and is neither \<^verbatim>\<open>.\<close>
  nor \<^verbatim>\<open>..\<close>: the names of the entries of a directory are plain. \<open>norm_comps\<close> gives the
  components \<^verbatim>\<open>normpath\<close> keeps of an absolute path.
\<close>

definition plain :: "string \<Rightarrow> bool" where
  "plain seg = (seg \<noteq> [] \<and> CHR ''/'' \<notin> set seg \<and> seg \<noteq> ''.'' \<and> seg \<noteq> ''..'')"

definition norm_comps :: "string \<Rightarrow> string list" where
  "norm_comps p = foldl (normpath_step (Suc 0)) [] (split p CHR ''/'')"

section \<open>The loops as one loop\<close>

lemma upload_each_append:
  "upload_each sys client a st (xs @ ys) =
     (case upload_each sys client a st xs of
        Inl e \<Rightarrow> Inl e
      | Inr st' \<Rightarrow> upload_each sys client a st' ys)"
  by (induction xs arbitrary: st) (auto split: sum.splits)

lemma upload_files_each:
  "upload_files sys client a st root files = upload_each sys client a st (map (Pair root) files)"
  by (induction files arbitrary: st) (auto split: sum.splits)

lemma upload_walk_each:
  "upload_walk sys client a st walk = upload_each sys client a st (walk_files walk)"
proof (induction walk arbitrary: st)
  case Nil
  show ?case by (simp add: walk_files_def)
next
  case (Cons w walk)
  obtain root dirs files where w: "w = (root, dirs, files)"
    by (cases w)
  have "walk_files (w # walk) = map (Pair root) files @ walk_files walk"
    by (simp add: walk_files_def w)
  then show ?case
    by (simp add: w upload_each_append upload_files_each Cons.IH split: sum.splits)
qed

section \<open>The upload decision\<close>

lemma fetch_dest_md5_found:
  "get_blob_properties client (store st) dest_path = Inr props \<Longrightarrow>
   fetch_dest_md5 client dest_path st =
     Inr (content_md5 (content_settings props), record_call (GetBlobProperties dest_path) None st)"
  by (simp add: fetch_dest_md5_def)

lemma fetch_dest_md5_not_found:
  "get_blob_properties client (store st) dest_path = Inl (ResourceNotFoundError m) \<Longrightarrow>
   fetch_dest_md5 client dest_path st =
     Inr (Some [], record_call (GetBlobProperties dest_path) (Some (ResourceNotFoundError m)) st)"
  by (simp add: fetch_dest_md5_def)

lemma fetch_dest_md5_raises:
  "get_blob_properties client (store st) dest_path = Inl (Exception m) \<Longrightarrow>
   fetch_dest_md5 client dest_path st =
     Inl (Exception m, record_call (GetBlobProperties dest_path) (Some (Exception m)) st)"
  by (simp add: fetch_dest_md5_def)

lemma fetch_dest_md5_fingerprint:
  assumes "\<forall>m. get_blob_properties client (store st) dest_path \<noteq> Inl (Exception m)"
  shows "\<exists>r. fetch_dest_md5 client dest_path st =
           Inr (stored_fingerprint (get_blob_properties client (store st) dest_path),
                record_call (GetBlobProperties dest_path) r st)"
proof (cases "get_blob_properties client (store st) dest_path")
  case (Inl e)
  with assms obtain m where "e = ResourceNotFoundError m"
    by (cases e) auto
  with Inl show ?thesis
    by (intro exI [of _ "Some (ResourceNotFoundError m)"])
       (simp add: fetch_dest_md5_not_found stored_fingerprint_def)
next
  case (Inr props)
  then show ?thesis
    by (intro exI [of _ None]) (simp add: fetch_dest_md5_found stored_fingerprint_def)
qed

lemma calls_upload_if_changed:
  "\<exists>r. calls (upload_if_changed client dest_path file_data md5_hash dest_md5 settings st) =
     calls st @ (if Some md5_hash \<noteq> dest_md5
                 then [(UploadBlob dest_path file_data True settings, r)] else [])"
  by (cases "upload_blob client (store st) dest_path file_data True settings";
      cases "fst (upload_blob client (store st) dest_path file_data True settings)")
     (auto simp: upload_if_changed_def print_def record_call_def)

lemma upload_file_reaches_decision:
  assumes "dest_path_of sys a (os_path_join root [file]) = Inr dest_path"
    and "open_read sys (os_path_join root [file]) = Inr file_data"
    and "fetch_dest_md5 client dest_path
           (print (uploading_line (os_path_join root [file]) dest_path) []
              (st\<lparr>files_to_keep := insert dest_path (files_to_keep st)\<rparr>)) = Inr (dest_md5, st3)"
  shows "upload_file sys client a st root file =
           Inr (upload_if_changed client dest_path file_data (md5 sys file_data) dest_md5
                  (new_content_settings (resolve_content_type sys (os_path_join root [file]))) st3)"
  using assms by (simp add: upload_file_def Let_def)

lemma print_fields:
  "store (print s e st) = store st"
  "calls (print s e st) = calls st"
  "files_to_keep (print s e st) = files_to_keep st"
  "stdout (print s e st) = stdout st @ s @ e"
  by (simp_all add: print_def)

lemma announced_fields:
  "store (announced path dest_path st) = store st"
  "calls (announced path dest_path st) = calls st"
  "files_to_keep (announced path dest_path st) = insert dest_path (files_to_keep st)"
  "stdout (announced path dest_path st) = stdout st @ uploading_line path dest_path"
  by (simp_all add: announced_def print_def)

lemma record_call_fields:
  "store (record_call c r st) = store st"
  "calls (record_call c r st) = calls st @ [(c, r)]"
  "files_to_keep (record_call c r st) = files_to_keep st"
  "stdout (record_call c r st) = stdout st"
  by (simp_all add: record_call_def)

lemma upload_file_step:
  assumes "dest_path_of sys a (os_path_join root [file]) = Inr dest_path"
    and "open_read sys (os_path_join root [file]) = Inr file_data"
  shows "upload_file sys client a st root file =
           (case fetch_dest_md5 client dest_path (announced (os_path_join root [file]) dest_path st) of
              Inl e \<Rightarrow> Inl e
            | Inr (dest_md5, st3) \<Rightarrow>
                Inr (upload_if_changed client dest_path file_data (md5 sys file_data) dest_md5
                       (new_content_settings (resolve_content_type sys (os_path_join root [file])))
                       st3))"
  using assms by (simp add: upload_file_def Let_def announced_def)

lemma upload_file_no_key:
  "dest_path_of sys a (os_path_join root [file]) = Inl e \<Longrightarrow>
   upload_file sys client a st root file = Inl (e, st)"
  by (simp add: upload_file_def Let_def)

lemma upload_file_unreadable:
  "dest_path_of sys a (os_path_join root [file]) = Inr dest_path \<Longrightarrow>
   open_read sys (os_path_join root [file]) = Inl e \<Longrightarrow>
   upload_file sys client a st root file = Inl (e, announced (os_path_join root [file]) dest_path st)"
  by (simp add: upload_file_def Let_def announced_def)

lemma upload_if_changed_differs:
  assumes "Some md5_hash \<noteq> dest_md5"
  shows "\<exists>r s'. upload_blob client (store st) dest_path file_data True settings = (r, s') \<and>
           upload_if_changed client dest_path file_data md5_hash dest_md5 settings st =
             print (case r of None \<Rightarrow> ''done'' | Some err \<Rightarrow> ''failed, error: '' @ str err) ''\<newline>''
               (record_call (UploadBlob dest_path file_data True settings) r (st\<lparr>store := s'\<rparr>))"
proof -
  obtain r s' where "upload_blob client (store st) dest_path file_data True settings = (r, s')"
    by (cases "upload_blob client (store st) dest_path file_data True settings")
  with assms show ?thesis
    by (cases r) (simp_all add: upload_if_changed_def)
qed

lemma upload_if_changed_same:
  "Some md5_hash = dest_md5 \<Longrightarrow>
   upload_if_changed client dest_path file_data md5_hash dest_md5 settings st =
     print ''skipped'' ''\<newline>'' st"
  by (simp add: upload_if_changed_def)

lemma upload_if_changed_effect:
  "calls (upload_if_changed client dest_path file_data md5_hash dest_md5 settings st) =
     calls st @
     (if Some md5_hash \<noteq> dest_md5
      then [(UploadBlob dest_path file_data True settings,
             fst (upload_blob client (store st) dest_path file_data True settings))]
      else [])"
  "store (upload_if_changed client dest_path file_data md5_hash dest_md5 settings st) =
     (if Some md5_hash \<noteq> dest_md5
      then snd (upload_blob client (store st) dest_path file_data True settings)
      else store st)"
proof -
  obtain r s' where up: "upload_blob client (store st) dest_path file_data True settings = (r, s')"
    by (cases "upload_blob client (store st) dest_path file_data True settings")
  show "calls (upload_if_changed client dest_path file_data md5_hash dest_md5 settings st) =
     calls st @
     (if Some md5_hash \<noteq> dest_md5
      then [(UploadBlob dest_path file_data True settings,
             fst (upload_blob client (store st) dest_path file_data True settings))]
      else [])"
    by (cases r) (simp_all add: upload_if_changed_def up print_fields record_call_fields)
  show "store (upload_if_changed client dest_path file_data md5_hash dest_md5 settings st) =
     (if Some md5_hash \<noteq> dest_md5
      then snd (upload_blob client (store st) dest_path file_data True settings)
      else store st)"
    by (cases r) (simp_all add: upload_if_changed_def up print_fields record_call_fields)
qed

text \<open>
  C1. For a file that the upload phase traverses (its destination key is computed, it is
  read, and the fetch of the blob's properties returns them or reports that the blob does
  not exist), the step issues an upload call exactly when the digest of the file differs
  from the stored fingerprint of the destination, which is the empty byte string for a
  blob that does not exist: the container is then what the client's \<^verbatim>\<open>upload_blob\<close> leaves
  for the key, the bytes, \<^verbatim>\<open>overwrite=True\<close> and the content settings. When the two are
  equal, the step issues no upload call and the container is as it was.
\<close>

theorem upload_iff_fingerprint_differs:
  assumes key: "dest_path_of sys a (os_path_join root [file]) = Inr dest_path"
    and data: "open_read sys (os_path_join root [file]) = Inr file_data"
    and fetch: "\<forall>m. get_blob_properties client (store st) dest_path \<noteq> Inl (Exception m)"
  shows "\<exists>st'. upload_file sys client a st root file = Inr st' \<and>
           upload_calls (calls_since st st') =
             (if Some (md5 sys file_data)
                   \<noteq> stored_fingerprint (get_blob_properties client (store st) dest_path)
              then [UploadBlob dest_path file_data True
                      (new_content_settings (resolve_content_type sys (os_path_join root [file])))]
              else []) \<and>
           store st' =
             (if Some (md5 sys file_data)
                   \<noteq> stored_fingerprint (get_blob_properties client (store st) dest_path)
              then snd (upload_blob client (store st) dest_path file_data True
                          (new_content_settings (resolve_content_type sys (os_path_join root [file]))))
              else store st)"
proof -
  let ?path = "os_path_join root [file]"
  let ?st2 = "announced ?path dest_path st"
  let ?fp = "stored_fingerprint (get_blob_properties client (store st) dest_path)"
  let ?settings = "new_content_settings (resolve_content_type sys ?path)"
  from fetch have "\<forall>m. get_blob_properties client (store ?st2) dest_path \<noteq> Inl (Exception m)"
    by (simp add: announced_fields)
  from fetch_dest_md5_fingerprint [OF this]
  obtain r where fetched:
    "fetch_dest_md5 client dest_path ?st2 = Inr (?fp, record_call (GetBlobProperties dest_path) r ?st2)"
    by (auto simp: announced_fields)
  let ?st3 = "record_call (GetBlobProperties dest_path) r ?st2"
  let ?st' = "upload_if_changed client dest_path file_data (md5 sys file_data) ?fp ?settings ?st3"
  have run: "upload_file sys client a st root file = Inr ?st'"
    using fetched by (simp add: upload_file_step [OF key data])
  have before: "store ?st3 = store st" "calls ?st3 = calls st @ [(GetBlobProperties dest_path, r)]"
    by (simp_all add: record_call_fields announced_fields)
  have issued: "upload_calls (calls_since st ?st') =
      (if Some (md5 sys file_data) \<noteq> ?fp
       then [UploadBlob dest_path file_data True ?settings] else [])"
    by (simp add: upload_if_changed_effect(1) before calls_since_def upload_calls_def)
  have remote: "store ?st' =
      (if Some (md5 sys file_data) \<noteq> ?fp
       then snd (upload_blob client (store st) dest_path file_data True ?settings)
       else store st)"
    by (simp add: upload_if_changed_effect(2) before)
  from run issued remote show ?thesis
    by (intro exI [of _ ?st'] conjI)
qed

theorem upload_iff_fingerprint_differs_witness:
  "dest_path_of site_sys site_args (os_path_join ''/a'' [''index.html'']) = Inr ''site/index.html'' \<and>
   open_read site_sys (os_path_join ''/a'' [''index.html'']) = Inr [1, 2, 3] \<and>
   (\<forall>m. get_blob_properties (mem_client None Map.empty []) (store (initial_state []))
          ''site/index.html'' \<noteq> Inl (Exception m)) \<and>
   (\<exists>st'. upload_file site_sys (mem_client None Map.empty []) site_args (initial_state [])
            ''/a'' ''index.html'' = Inr st' \<and>
          upload_calls (calls_since (initial_state []) st') =
            [UploadBlob ''site/index.html'' [1, 2, 3] True
               \<lparr>content_type = Some ''text/html'', content_md5 = None\<rparr>] \<and>
          store st' =
            [(''site/index.html'',
              \<lparr>blob_data = [1, 2, 3],
               blob_settings = \<lparr>content_type = Some ''text/html'', content_md5 = None\<rparr>\<rparr>)])"
proof -
  have key: "dest_path_of site_sys site_args (os_path_join ''/a'' [''index.html'']) = Inr ''site/index.html''"
    by (simp add: run_defs)
  have data: "open_read site_sys (os_path_join ''/a'' [''index.html'']) = Inr [1, 2, 3]"
    by (simp add: run_defs)
  have fetch: "\<forall>m. get_blob_properties (mem_client None Map.empty []) (store (initial_state []))
                 ''site/index.html'' \<noteq> Inl (Exception m)"
    by (simp add: run_defs)
  show ?thesis
    using key data fetch upload_iff_fingerprint_differs [OF key data fetch]
    by (simp add: run_defs stored_fingerprint_def)
qed

section \<open>A blob without a stored MD5\<close>

text \<open>
  C9. When the blob exists at the destination key and its properties carry no content MD5
  (the field is \<^verbatim>\<open>None\<close>), the comparison is a mismatch whatever the blob holds: the step
  fetches the properties and then uploads the file, also when its bytes are the bytes of
  the blob. The upload call is the client's \<^verbatim>\<open>upload_blob\<close> on the key, the bytes of the
  file, \<^verbatim>\<open>overwrite=True\<close> and the content settings; the step records what the call
  raised, and leaves the container the call left.
\<close>

theorem unset_remote_md5_forces_upload:
  assumes key: "dest_path_of sys a (os_path_join root [file]) = Inr dest_path"
    and data: "open_read sys (os_path_join root [file]) = Inr file_data"
    and found: "get_blob_properties client (store st) dest_path = Inr props"
    and unset: "content_md5 (content_settings props) = None"
  shows "\<exists>st'. upload_file sys client a st root file = Inr st' \<and>
           calls_since st st' =
             [(GetBlobProperties dest_path, None),
              (UploadBlob dest_path file_data True
                 (new_content_settings (resolve_content_type sys (os_path_join root [file]))),
               fst (upload_blob client (store st) dest_path file_data True
                      (new_content_settings (resolve_content_type sys (os_path_join root [file])))))] \<and>
           store st' =
             snd (upload_blob client (store st) dest_path file_data True
                    (new_content_settings (resolve_content_type sys (os_path_join root [file]))))"
proof -
  let ?path = "os_path_join root [file]"
  let ?settings = "new_content_settings (resolve_content_type sys ?path)"
  let ?st3 = "record_call (GetBlobProperties dest_path) None (announced ?path dest_path st)"
  let ?st' = "upload_if_changed client dest_path file_data (md5 sys file_data) None ?settings ?st3"
  have "get_blob_properties client (store (announced ?path dest_path st)) dest_path = Inr props"
    using found by (simp add: announced_fields)
  then have "fetch_dest_md5 client dest_path (announced ?path dest_path st) = Inr (None, ?st3)"
    using unset by (simp add: fetch_dest_md5_found)
  then have run: "upload_file sys client a st root file = Inr ?st'"
    by (simp add: upload_file_step [OF key data])
  have before: "store ?st3 = store st" "calls ?st3 = calls st @ [(GetBlobProperties dest_path, None)]"
    by (simp_all add: record_call_fields announced_fields)
  have issued: "calls_since st ?st' =
      [(GetBlobProperties dest_path, None),
       (UploadBlob dest_path file_data True ?settings,
        fst (upload_blob client (store st) dest_path file_data True ?settings))]"
    by (simp add: upload_if_changed_effect(1) before calls_since_def)
  have remote: "store ?st' = snd (upload_blob client (store st) dest_path file_data True ?settings)"
    by (simp add: upload_if_changed_effect(2) before)
  from run issued remote show ?thesis
    by (intro exI [of _ ?st'] conjI)
qed

theorem unset_remote_md5_forces_upload_witness:
  "dest_path_of site_sys site_args (os_path_join ''/a'' [''index.html'']) = Inr ''site/index.html'' \<and>
   open_read site_sys (os_path_join ''/a'' [''index.html'']) = Inr [1, 2, 3] \<and>
   get_blob_properties (mem_client None Map.empty [])
     (store (initial_state
        [(''site/index.html'',
          \<lparr>blob_data = [1, 2, 3],
           blob_settings = \<lparr>content_type = Some ''text/plain'', content_md5 = None\<rparr>\<rparr>)]))
     ''site/index.html''
     = Inr \<lparr>content_settings = \<lparr>content_type = Some ''text/plain'', content_md5 = None\<rparr>\<rparr> \<and>
   (\<exists>st'. upload_file site_sys (mem_client None Map.empty []) site_args
              (initial_state
                 [(''site/index.html'',
                   \<lparr>blob_data = [1, 2, 3],
                    blob_settings = \<lparr>content_type = Some ''text/plain'', content_md5 = None\<rparr>\<rparr>)])
              ''/a'' ''index.html'' = Inr st' \<and>
            calls_since
              (initial_state
                 [(''site/index.html'',
                   \<lparr>blob_data = [1, 2, 3],
                    blob_settings = \<lparr>content_type = Some ''text/plain'', content_md5 = None\<rparr>\<rparr>)])
              st' =
              [(GetBlobProperties ''site/index.html'', None),
               (UploadBlob ''site/index.html'' [1, 2, 3] True
                  \<lparr>content_type = Some ''text/html'', content_md5 = None\<rparr>, None)] \<and>
            store st' =
              [(''site/index.html'',
                \<lparr>blob_data = [1, 2, 3],
                 blob_settings = \<lparr>content_type = Some ''text/html'', content_md5 = None\<rparr>\<rparr>)])"
proof -
  let ?st = "initial_state
     [(''site/index.html'',
       \<lparr>blob_data = [1, 2, 3],
        blob_settings = \<lparr>content_type = Some ''text/plain'', content_md5 = None\<rparr>\<rparr>)]"
  let ?props = "\<lparr>content_settings = \<lparr>content_type = Some ''text/plain'', content_md5 = None\<rparr>\<rparr>"
  have key: "dest_path_of site_sys site_args (os_path_join ''/a'' [''index.html'']) = Inr ''site/index.html''"
    by (simp add: run_defs)
  have data: "open_read site_sys (os_path_join ''/a'' [''index.html'']) = Inr [1, 2, 3]"
    by (simp add: run_defs)
  have found: "get_blob_properties (mem_client None Map.empty []) (store ?st) ''site/index.html'' = Inr ?props"
    by (simp add: run_defs)
  have unset: "content_md5 (content_settings ?props) = None"
    by simp
  show ?thesis
    using key data found unset_remote_md5_forces_upload [OF key data found unset]
    by (simp add: run_defs)
qed

section \<open>What an upload call carries\<close>

lemma upload_file_calls:
  "\<exists>new. calls (final_state (upload_file sys client a st root file)) = calls st @ new \<and>
         (\<forall>c \<in> set (upload_calls new). issued_by sys a [(root, file)] c)"
proof (cases "dest_path_of sys a (os_path_join root [file])")
  case (Inl e)
  then show ?thesis
    by (simp add: upload_file_no_key final_state_def upload_calls_def)
next
  case key: (Inr dest_path)
  let ?path = "os_path_join root [file]"
  let ?st2 = "announced ?path dest_path st"
  show ?thesis
  proof (cases "open_read sys ?path")
    case (Inl e)
    with key show ?thesis
      by (simp add: upload_file_unreadable final_state_def upload_calls_def announced_fields)
  next
    case data: (Inr file_data)
    show ?thesis
    proof (cases "fetch_dest_md5 client dest_path ?st2")
      case (Inl e)
      then have "\<exists>r. snd e = record_call (GetBlobProperties dest_path) r ?st2"
        by (auto simp: fetch_dest_md5_def split: sum.splits exn.splits)
      then obtain r where "snd e = record_call (GetBlobProperties dest_path) r ?st2"
        by blast
      then have "calls (final_state (upload_file sys client a st root file)) =
          calls st @ [(GetBlobProperties dest_path, r)]"
        using Inl by (cases e) (simp add: upload_file_step [OF key data] final_state_def
            record_call_fields announced_fields)
      then show ?thesis
        by (simp add: upload_calls_def)
    next
      case (Inr fetched)
      obtain dest_md5 st3 where fetched: "fetched = (dest_md5, st3)"
        by (cases fetched)
      let ?settings = "new_content_settings (resolve_content_type sys ?path)"
      have "\<exists>r. st3 = record_call (GetBlobProperties dest_path) r ?st2"
        using Inr fetched by (auto simp: fetch_dest_md5_def split: sum.splits exn.splits)
      then obtain r where st3: "calls st3 = calls st @ [(GetBlobProperties dest_path, r)]"
        by (auto simp: record_call_fields announced_fields)
      obtain r' where "calls (upload_if_changed client dest_path file_data (md5 sys file_data)
                                dest_md5 ?settings st3) =
          calls st3 @ (if Some (md5 sys file_data) \<noteq> dest_md5
                       then [(UploadBlob dest_path file_data True ?settings, r')] else [])"
        using calls_upload_if_changed by blast
      then have "calls (final_state (upload_file sys client a st root file)) =
          calls st @ ((GetBlobProperties dest_path, r) #
                      (if Some (md5 sys file_data) \<noteq> dest_md5
                       then [(UploadBlob dest_path file_data True ?settings, r')] else []))"
        using Inr fetched st3 by (simp add: upload_file_step [OF key data] final_state_def)
      moreover have "issued_by sys a [(root, file)] (UploadBlob dest_path file_data True ?settings)"
        using key data by (simp add: issued_by_def upload_call_for_def new_content_settings_def)
      ultimately show ?thesis
        by (auto simp: upload_calls_def)
    qed
  qed
qed

lemma issued_by_mono:
  "issued_by sys a files c \<Longrightarrow> set files \<subseteq> set files' \<Longrightarrow> issued_by sys a files' c"
  by (auto simp: issued_by_def List.map_filter_def)

lemma upload_calls_append:
  "upload_calls (xs @ ys) = upload_calls xs @ upload_calls ys"
  by (simp add: upload_calls_def)

lemma upload_each_calls:
  "\<exists>new. calls (final_state (upload_each sys client a st files)) = calls st @ new \<and>
         (\<forall>c \<in> set (upload_calls new). issued_by sys a files c)"
proof (induction files arbitrary: st)
  case Nil
  show ?case
    by (simp add: final_state_def upload_calls_def)
next
  case (Cons f files)
  obtain root fname where f: "f = (root, fname)"
    by (cases f)
  obtain new where new: "calls (final_state (upload_file sys client a st root fname)) = calls st @ new"
    and new_ok: "\<forall>c \<in> set (upload_calls new). issued_by sys a [(root, fname)] c"
    using upload_file_calls by blast
  have first: "\<And>c. issued_by sys a [(root, fname)] c \<Longrightarrow> issued_by sys a (f # files) c"
    by (rule issued_by_mono) (auto simp: f)
  have rest: "\<And>c. issued_by sys a files c \<Longrightarrow> issued_by sys a (f # files) c"
    by (rule issued_by_mono) auto
  show ?case
  proof (cases "upload_file sys client a st root fname")
    case (Inl e)
    then have "final_state (upload_each sys client a st (f # files)) =
        final_state (upload_file sys client a st root fname)"
      by (simp add: f)
    with new new_ok first show ?thesis
      by auto
  next
    case (Inr st')
    obtain new' where new': "calls (final_state (upload_each sys client a st' files)) = calls st' @ new'"
      and new'_ok: "\<forall>c \<in> set (upload_calls new'). issued_by sys a files c"
      using Cons.IH by blast
    have "calls st' = calls st @ new"
      using new Inr by (simp add: final_state_def)
    then have "calls (final_state (upload_each sys client a st (f # files))) = calls st @ (new @ new')"
      using Inr new' by (simp add: f)
    moreover have "\<forall>c \<in> set (upload_calls (new @ new')). issued_by sys a (f # files) c"
      using new_ok new'_ok first rest by (auto simp: upload_calls_append)
    ultimately show ?thesis
      by blast
  qed
qed

text \<open>
  C3, as the claim states it, fails: the content settings of an upload call never hold the
  fingerprint. On the small site, uploaded to an empty container, the upload calls do not
  all carry the MD5 of their bytes.
\<close>

theorem upload_call_fingerprint_counterexample:
  "\<not> list_all (carries_fingerprint site_sys)
       (upload_calls (calls (final_state
          (upload_phase site_sys (mem_client None Map.empty []) site_args (initial_state [])))))"
  by (simp add: run_defs step_defs carries_fingerprint_def Let_def)


text \<open>
  C3, amended. Every upload call that the upload phase issues is the upload call of one of
  the files of the walk: it passes the destination key of the file, the bytes read from
  it, \<^verbatim>\<open>overwrite=True\<close>, and content settings whose content type is the one resolved for the
  file and whose content MD5 is not set. Whether the blob gets a content MD5 is left to
  the storage service.
\<close>

theorem upload_calls_carry_content_type_only:
  "\<forall>c \<in> set (upload_calls (calls_since st (final_state (upload_phase sys client a st)))).
     issued_by sys a (walk_files (os_walk sys (SOURCE a))) c"
proof -
  obtain new where "calls (final_state (upload_each sys client a st (walk_files (os_walk sys (SOURCE a))))) = calls st @ new"
    and "\<forall>c \<in> set (upload_calls new). issued_by sys a (walk_files (os_walk sys (SOURCE a))) c"
    using upload_each_calls by blast
  then show ?thesis
    by (simp add: upload_phase_def upload_walk_each calls_since_def)
qed



theorem upload_calls_carry_content_type_only_witness:
  "upload_calls (calls_since (initial_state []) (final_state
      (upload_phase site_sys (mem_client None Map.empty []) site_args (initial_state [])))) =
     [UploadBlob ''site/index.html'' [1, 2, 3] True
        \<lparr>content_type = Some ''text/html'', content_md5 = None\<rparr>,
      UploadBlob ''site/sub/x.txt'' [4] True
        \<lparr>content_type = Some ''text/plain'', content_md5 = None\<rparr>,
      UploadBlob ''site/sub/app.js.map'' [5, 6] True
        \<lparr>content_type = Some ''application/octet-stream'', content_md5 = None\<rparr>] \<and>
   issued_by site_sys site_args (walk_files (os_walk site_sys (SOURCE site_args)))
     (UploadBlob ''site/index.html'' [1, 2, 3] True
        \<lparr>content_type = Some ''text/html'', content_md5 = None\<rparr>) \<and>
   issued_by site_sys site_args (walk_files (os_walk site_sys (SOURCE site_args)))
     (UploadBlob ''site/sub/app.js.map'' [5, 6] True
        \<lparr>content_type = Some ''application/octet-stream'', content_md5 = None\<rparr>)"
proof -
  let ?issued = "upload_calls (calls_since (initial_state []) (final_state
      (upload_phase site_sys (mem_client None Map.empty []) site_args (initial_state []))))"
  let ?html = "UploadBlob ''site/index.html'' [1, 2, 3] True
      \<lparr>content_type = Some ''text/html'', content_md5 = None\<rparr>"
  let ?txt = "UploadBlob ''site/sub/x.txt'' [4] True
      \<lparr>content_type = Some ''text/plain'', content_md5 = None\<rparr>"
  let ?map = "UploadBlob ''site/sub/app.js.map'' [5, 6] True
      \<lparr>content_type = Some ''application/octet-stream'', content_md5 = None\<rparr>"
  have issued: "?issued = [?html, ?txt, ?map]"
    by (simp add: run_defs step_defs Let_def)
  note every = upload_calls_carry_content_type_only
    [of "initial_state []" site_sys "mem_client None Map.empty []" site_args]
  have "?html \<in> set ?issued"
    unfolding issued by (rule list.set_intros(1))
  with every have html: "issued_by site_sys site_args
      (walk_files (os_walk site_sys (SOURCE site_args))) ?html"
    by (rule bspec)
  have "?map \<in> set ?issued"
    unfolding issued by simp
  with every have map: "issued_by site_sys site_args
      (walk_files (os_walk site_sys (SOURCE site_args))) ?map"
    by (rule bspec)
  from issued html map show ?thesis
    by (intro conjI)
qed


section \<open>A fetch that fails\<close>

lemma upload_file_fetch_raises:
  assumes key: "dest_path_of sys a (os_path_join root [file]) = Inr dest_path"
    and data: "open_read sys (os_path_join root [file]) = Inr file_data"
    and fails: "get_blob_properties client (store st) dest_path = Inl (Exception m)"
  shows "upload_file sys client a st root file =
           Inl (Exception m, record_call (GetBlobProperties dest_path) (Some (Exception m))
                               (announced (os_path_join root [file]) dest_path st))"
proof -
  have "get_blob_properties client (store (announced (os_path_join root [file]) dest_path st)) dest_path
          = Inl (Exception m)"
    using fails by (simp add: announced_fields)
  then show ?thesis
    by (simp add: upload_file_step [OF key data] fetch_dest_md5_raises)
qed

lemma upload_file_fetch_not_found:
  assumes key: "dest_path_of sys a (os_path_join root [file]) = Inr dest_path"
    and data: "open_read sys (os_path_join root [file]) = Inr file_data"
    and missing: "get_blob_properties client (store st) dest_path = Inl (ResourceNotFoundError m)"
  shows "upload_file sys client a st root file =
           Inr (upload_if_changed client dest_path file_data (md5 sys file_data) (Some [])
                  (new_content_settings (resolve_content_type sys (os_path_join root [file])))
                  (record_call (GetBlobProperties dest_path) (Some (ResourceNotFoundError m))
                     (announced (os_path_join root [file]) dest_path st)))"
proof -
  have "get_blob_properties client (store (announced (os_path_join root [file]) dest_path st)) dest_path
          = Inl (ResourceNotFoundError m)"
    using missing by (simp add: announced_fields)
  then show ?thesis
    by (simp add: upload_file_step [OF key data] fetch_dest_md5_not_found)
qed

lemma upload_each_stops:
  assumes "upload_each sys client a st0 before = Inr st"
    and "upload_file sys client a st root file = Inl e"
  shows "upload_each sys client a st0 (before @ (root, file) # rest) = Inl e"
  using assms by (simp add: upload_each_append)

text \<open>
  C10. The fetch of the properties raises \<open>e\<close> for a file of the walk, the files before it
  having been processed. If \<open>e\<close> is not \<^verbatim>\<open>ResourceNotFoundError\<close>, nothing catches it: the
  script ends with \<open>e\<close> in the state the fetch left, so the file gets no outcome, no
  later file is processed and the reconciliation does not run. If \<open>e\<close> is
  \<^verbatim>\<open>ResourceNotFoundError\<close>, the step goes on with the empty byte string as the stored
  fingerprint.
\<close>

theorem fetch_failure_aborts_run:
  assumes env: "environ sys ''CONNECTION_STRING'' = Some connection_string"
    and connect: "from_connection_string client connection_string (container a) = Inr s"
    and walk: "walk_files (os_walk sys (SOURCE a)) = before @ (root, file) # rest"
    and before: "upload_each sys client a (initial_state s) before = Inr st"
    and key: "dest_path_of sys a (os_path_join root [file]) = Inr dest_path"
    and data: "open_read sys (os_path_join root [file]) = Inr file_data"
    and fails: "get_blob_properties client (store st) dest_path = Inl e"
  shows "case e of
           Exception m \<Rightarrow>
             main sys client a =
               Inl (e, Some (record_call (GetBlobProperties dest_path) (Some e)
                               (announced (os_path_join root [file]) dest_path st)))
         | ResourceNotFoundError m \<Rightarrow>
             upload_file sys client a st root file =
               Inr (upload_if_changed client dest_path file_data (md5 sys file_data) (Some [])
                      (new_content_settings (resolve_content_type sys (os_path_join root [file])))
                      (record_call (GetBlobProperties dest_path) (Some e)
                         (announced (os_path_join root [file]) dest_path st)))"
proof (cases e)
  case (ResourceNotFoundError m)
  with fails show ?thesis
    by (simp add: upload_file_fetch_not_found [OF key data])
next
  case (Exception m)
  let ?st_abort = "record_call (GetBlobProperties dest_path) (Some e)
                     (announced (os_path_join root [file]) dest_path st)"
  have "upload_file sys client a st root file = Inl (e, ?st_abort)"
    using fails Exception by (simp add: upload_file_fetch_raises [OF key data])
  with before have "upload_each sys client a (initial_state s) (before @ (root, file) # rest)
      = Inl (e, ?st_abort)"
    by (rule upload_each_stops)
  then have "upload_phase sys client a (initial_state s) = Inl (e, ?st_abort)"
    by (simp add: upload_phase_def upload_walk_each walk)
  then have "sync_container sys client a s = Inl (e, ?st_abort)"
    by (simp add: sync_container_def)
  then show ?thesis
    using env connect Exception by (simp add: main_def)
qed

theorem fetch_failure_aborts_run_witness:
  "case main site_sys flaky_client site_args of
     Inl (e, Some st) \<Rightarrow>
       e = Exception ''ServiceUnavailable'' \<and>
       calls st =
         [(GetBlobProperties ''site/index.html'', Some (ResourceNotFoundError ''BlobNotFound'')),
          (UploadBlob ''site/index.html'' [1, 2, 3] True
             \<lparr>content_type = Some ''text/html'', content_md5 = None\<rparr>, None),
          (GetBlobProperties ''site/sub/x.txt'', Some (Exception ''ServiceUnavailable''))] \<and>
       stdout st =
         uploading_line ''/a/index.html'' ''site/index.html'' @ ''done'' @ ''\<newline>'' @
         uploading_line ''/a/sub/x.txt'' ''site/sub/x.txt''
   | _ \<Rightarrow> False"
proof -
  let ?st = "final_state (upload_each site_sys flaky_client site_args (initial_state [])
                            [(''/a'', ''index.html'')])"
  have env: "environ site_sys ''CONNECTION_STRING'' = Some ''UseDevelopmentStorage=true''"
    by (simp add: run_defs)
  have connect: "from_connection_string flaky_client ''UseDevelopmentStorage=true''
                   (container site_args) = Inr []"
    by (simp add: run_defs flaky_client_def)
  have walk: "walk_files (os_walk site_sys (SOURCE site_args)) =
                [(''/a'', ''index.html'')] @ (''/a/sub'', ''x.txt'') # [(''/a/sub'', ''app.js.map'')]"
    by (simp add: run_defs step_defs)
  have before: "upload_each site_sys flaky_client site_args (initial_state [])
                  [(''/a'', ''index.html'')] = Inr ?st"
    by (simp add: run_defs step_defs flaky_client_def Let_def)
  have key: "dest_path_of site_sys site_args (os_path_join ''/a/sub'' [''x.txt'']) = Inr ''site/sub/x.txt''"
    by (simp add: run_defs)
  have data: "open_read site_sys (os_path_join ''/a/sub'' [''x.txt'']) = Inr [4]"
    by (simp add: run_defs)
  have fails: "get_blob_properties flaky_client (store ?st) ''site/sub/x.txt''
                 = Inl (Exception ''ServiceUnavailable'')"
    by (simp add: run_defs step_defs flaky_client_def Let_def)
  show ?thesis
    using fetch_failure_aborts_run [OF env connect walk before key data fails]
    by (simp add: run_defs step_defs flaky_client_def announced_def Let_def)
qed


section \<open>The set \<^verbatim>\<open>files_to_keep\<close>\<close>

lemma files_to_keep_upload_if_changed:
  "files_to_keep (upload_if_changed client dest_path file_data md5_hash dest_md5 settings st) =
     files_to_keep st"
  by (cases "upload_blob client (store st) dest_path file_data True settings";
      cases "fst (upload_blob client (store st) dest_path file_data True settings)")
     (auto simp: upload_if_changed_def print_fields record_call_fields)

lemma fetch_dest_md5_state:
  "fetch_dest_md5 client dest_path st = Inl (e, st') \<Longrightarrow>
     \<exists>r. st' = record_call (GetBlobProperties dest_path) r st"
  "fetch_dest_md5 client dest_path st = Inr (dest_md5, st') \<Longrightarrow>
     \<exists>r. st' = record_call (GetBlobProperties dest_path) r st"
  by (auto simp: fetch_dest_md5_def split: sum.splits exn.splits)

lemma files_to_keep_upload_file:
  "files_to_keep (final_state (upload_file sys client a st root file)) =
     (case dest_path_of sys a (os_path_join root [file]) of
        Inl e \<Rightarrow> files_to_keep st
      | Inr dest_path \<Rightarrow> insert dest_path (files_to_keep st))"
proof (cases "dest_path_of sys a (os_path_join root [file])")
  case (Inl e)
  then show ?thesis
    by (simp add: upload_file_no_key final_state_def)
next
  case key: (Inr dest_path)
  let ?st2 = "announced (os_path_join root [file]) dest_path st"
  show ?thesis
  proof (cases "open_read sys (os_path_join root [file])")
    case (Inl e)
    with key show ?thesis
      by (simp add: upload_file_unreadable final_state_def announced_fields)
  next
    case data: (Inr file_data)
    show ?thesis
    proof (cases "fetch_dest_md5 client dest_path ?st2")
      case (Inl failed)
      obtain e st3 where failed: "failed = (e, st3)"
        by (cases failed)
      with Inl have "files_to_keep st3 = insert dest_path (files_to_keep st)"
        using fetch_dest_md5_state(1) [of client dest_path ?st2 e st3]
        by (auto simp: record_call_fields announced_fields)
      with Inl failed show ?thesis
        by (simp add: upload_file_step [OF key data] final_state_def key)
    next
      case (Inr fetched)
      obtain dest_md5 st3 where fetched: "fetched = (dest_md5, st3)"
        by (cases fetched)
      with Inr have "files_to_keep st3 = insert dest_path (files_to_keep st)"
        using fetch_dest_md5_state(2) [of client dest_path ?st2 dest_md5 st3]
        by (auto simp: record_call_fields announced_fields)
      with Inr fetched show ?thesis
        by (simp add: upload_file_step [OF key data] final_state_def key
                      files_to_keep_upload_if_changed)
    qed
  qed
qed

lemma files_to_keep_upload_each:
  assumes "upload_each sys client a st files = Inr st'"
  shows "Inr ` files_to_keep st' = Inr ` files_to_keep st \<union> set (dest_paths sys a files)"
  using assms
proof (induction files arbitrary: st)
  case Nil
  then show ?case
    by (simp add: dest_paths_def)
next
  case (Cons f files)
  obtain root fname where f: "f = (root, fname)"
    by (cases f)
  from Cons.prems obtain st1 where
    step: "upload_file sys client a st root fname = Inr st1"
    and rest: "upload_each sys client a st1 files = Inr st'"
    by (auto simp: f split: sum.splits)
  have "dest_path_of sys a (os_path_join root [fname]) \<noteq> Inl e" for e
    using step by (auto simp: upload_file_no_key)
  then obtain dest_path where key: "dest_path_of sys a (os_path_join root [fname]) = Inr dest_path"
    by (cases "dest_path_of sys a (os_path_join root [fname])") auto
  have "files_to_keep st1 = insert dest_path (files_to_keep st)"
    using files_to_keep_upload_file [of sys client a st root fname] step key
    by (simp add: final_state_def)
  with Cons.IH [OF rest] key show ?case
    by (auto simp: dest_paths_def f)
qed

lemma files_to_keep_delete_if_stale:
  "files_to_keep (delete_if_stale client st name) = files_to_keep st"
  by (cases "delete_blob client (store st) name";
      cases "fst (delete_blob client (store st) name)")
     (auto simp: delete_if_stale_def Let_def print_fields record_call_fields)

lemma files_to_keep_delete_stale:
  "files_to_keep (delete_stale client st names) = files_to_keep st"
  unfolding delete_stale_def
  by (induction names arbitrary: st) (simp_all add: files_to_keep_delete_if_stale)

lemma files_to_keep_reconcile_phase:
  "files_to_keep (final_state (reconcile_phase client a st)) = files_to_keep st"
  by (cases "list_blobs client (store st) (dest_prefix a)")
     (auto simp: reconcile_phase_def final_state_def Let_def files_to_keep_delete_stale
                 record_call_fields split: option.splits)

text \<open>
  C6. An upload phase that runs to its end leaves in \<^verbatim>\<open>files_to_keep\<close> exactly the
  destination keys of the files of the walk, whether a file was uploaded, skipped or its
  upload failed; when no two files have the same key, the set has as many elements as
  the walk has files. The reconciliation phase does not change the set. The step for a
  file puts the key of the file into the set as soon as it has computed it, so the key is
  there however the step ends.
\<close>

theorem keep_set_holds_every_traversed_key:
  assumes run: "upload_phase sys client a (initial_state s) = Inr st"
  shows "Inr ` files_to_keep st = set (dest_paths sys a (walk_files (os_walk sys (SOURCE a)))) \<and>
         (distinct (dest_paths sys a (walk_files (os_walk sys (SOURCE a)))) \<longrightarrow>
            card (files_to_keep st) = length (walk_files (os_walk sys (SOURCE a)))) \<and>
         files_to_keep (final_state (reconcile_phase client a st)) = files_to_keep st \<and>
         (\<forall>st0 root file dest_path.
            dest_path_of sys a (os_path_join root [file]) = Inr dest_path \<longrightarrow>
            dest_path \<in> files_to_keep (final_state (upload_file sys client a st0 root file)))"
proof -
  let ?files = "walk_files (os_walk sys (SOURCE a))"
  have step: "dest_path \<in> files_to_keep (final_state (upload_file sys client a st0 root fname))"
    if "dest_path_of sys a (os_path_join root [fname]) = Inr dest_path"
    for st0 root fname dest_path
    using that by (simp add: files_to_keep_upload_file)
  have "upload_each sys client a (initial_state s) ?files = Inr st"
    using run by (simp add: upload_phase_def upload_walk_each)
  from files_to_keep_upload_each [OF this]
  have keys: "Inr ` files_to_keep st = set (dest_paths sys a ?files)"
    by (simp add: initial_state_def)
  have "card (files_to_keep st) = length ?files" if "distinct (dest_paths sys a ?files)"
  proof -
    have "card (files_to_keep st) = card (Inr ` files_to_keep st :: (exn + string) set)"
      by (simp add: card_image)
    also have "\<dots> = length (dest_paths sys a ?files)"
      using keys that by (simp add: distinct_card)
    finally show ?thesis
      by (simp add: dest_paths_def)
  qed
  then have size: "distinct (dest_paths sys a ?files) \<longrightarrow> card (files_to_keep st) = length ?files"
    by (rule impI)
  have kept: "files_to_keep (final_state (reconcile_phase client a st)) = files_to_keep st"
    by (rule files_to_keep_reconcile_phase)
  have each: "\<forall>st0 root fname dest_path.
      dest_path_of sys a (os_path_join root [fname]) = Inr dest_path \<longrightarrow>
      dest_path \<in> files_to_keep (final_state (upload_file sys client a st0 root fname))"
    using step by (intro allI impI)
  show ?thesis
    using keys size kept each by (intro conjI)
qed


theorem keep_set_holds_every_traversed_key_witness:
  "upload_phase five_sys faulty_client site_args (initial_state old_blobs) =
     Inr (final_state (upload_phase five_sys faulty_client site_args (initial_state old_blobs))) \<and>
   Inr ` files_to_keep (final_state (upload_phase five_sys faulty_client site_args (initial_state old_blobs)))
     = {Inr ''site/1.txt'', Inr ''site/2.txt'', Inr ''site/3.txt'', Inr ''site/4.txt'',
        Inr ''site/5.txt'' :: exn + string} \<and>
   card (files_to_keep (final_state
      (upload_phase five_sys faulty_client site_args (initial_state old_blobs)))) = 5 \<and>
   files_to_keep (final_state (reconcile_phase faulty_client site_args (final_state
      (upload_phase five_sys faulty_client site_args (initial_state old_blobs)))))
     = files_to_keep (final_state
         (upload_phase five_sys faulty_client site_args (initial_state old_blobs))) \<and>
   ''site/3.txt'' \<in> files_to_keep (final_state
      (upload_file five_sys faulty_client site_args (initial_state old_blobs) ''/a'' ''3.txt''))"
proof -
  let ?st = "final_state (upload_phase five_sys faulty_client site_args (initial_state old_blobs))"
  have run: "upload_phase five_sys faulty_client site_args (initial_state old_blobs) = Inr ?st"
    by (simp add: run_defs step_defs five_defs Let_def)
  have keys: "dest_paths five_sys site_args (walk_files (os_walk five_sys (SOURCE site_args))) =
      [Inr ''site/1.txt'', Inr ''site/2.txt'', Inr ''site/3.txt'', Inr ''site/4.txt'',
       Inr ''site/5.txt'']"
    by (simp add: run_defs step_defs five_defs dest_paths_def)
  have files: "length (walk_files (os_walk five_sys (SOURCE site_args))) = 5"
    by (simp add: run_defs step_defs five_defs)
  have key: "dest_path_of five_sys site_args (os_path_join ''/a'' [''3.txt'']) = Inr ''site/3.txt''"
    by (simp add: run_defs five_defs)
  note all = keep_set_holds_every_traversed_key [OF run]
  have "Inr ` files_to_keep ?st =
      {Inr ''site/1.txt'', Inr ''site/2.txt'', Inr ''site/3.txt'', Inr ''site/4.txt'',
       Inr ''site/5.txt'' :: exn + string}"
    using all [THEN conjunct1] by (simp add: keys)
  moreover have "card (files_to_keep ?st) = 5"
    using all [THEN conjunct2, THEN conjunct1] by (simp add: keys files)
  moreover note all [THEN conjunct2, THEN conjunct2, THEN conjunct1]
  moreover have "''site/3.txt'' \<in> files_to_keep (final_state
      (upload_file five_sys faulty_client site_args (initial_state old_blobs) ''/a'' ''3.txt''))"
    using all [THEN conjunct2, THEN conjunct2, THEN conjunct2] key by blast
  ultimately show ?thesis
    using run by (intro conjI)
qed


section \<open>Failures of single uploads and deletions\<close>

lemma upload_if_changed_raises:
  assumes "Some md5_hash \<noteq> dest_md5"
    and "upload_blob client (store st) dest_path file_data True settings = (Some err, s')"
  shows "upload_if_changed client dest_path file_data md5_hash dest_md5 settings st =
           print (''failed, error: '' @ str err) ''\<newline>''
             (record_call (UploadBlob dest_path file_data True settings) (Some err)
                (st\<lparr>store := s'\<rparr>))"
  using assms by (simp add: upload_if_changed_def)

lemma delete_if_stale_raises:
  assumes "name \<notin> files_to_keep st"
    and "delete_blob client (store st) name = (Some err, s')"
  shows "delete_if_stale client st name =
           print (''failed, error: '' @ str err) ''\<newline>''
             (record_call (DeleteBlob name) (Some err)
                ((print (''Deleting '' @ name @ ''... '') [] st)\<lparr>store := s'\<rparr>))"
  using assms by (simp add: delete_if_stale_def Let_def print_fields)

lemma upload_each_continues:
  assumes "upload_each sys client a st0 before = Inr st"
    and "upload_file sys client a st root file = Inr st'"
  shows "upload_each sys client a st0 (before @ (root, file) # rest) =
           upload_each sys client a st' rest"
  using assms by (simp add: upload_each_append)

text \<open>
  C7. An upload call that raises is caught in the step of its file: the step ends
  normally, prints \<^verbatim>\<open>failed, error:\<close> with the text of the exception, and the upload phase
  goes on with the remaining files of the walk from the state the step left. The same
  holds for a delete call that raises in the reconciliation: the failure is printed and
  the loop goes on with the remaining names.
\<close>

theorem failures_do_not_stop_the_loops:
  assumes walk: "walk_files (os_walk sys (SOURCE a)) = before @ (root, file) # rest"
    and before: "upload_each sys client a st0 before = Inr st"
    and key: "dest_path_of sys a (os_path_join root [file]) = Inr dest_path"
    and data: "open_read sys (os_path_join root [file]) = Inr file_data"
    and fetch: "\<forall>m. get_blob_properties client (store st) dest_path \<noteq> Inl (Exception m)"
    and differs: "Some (md5 sys file_data) \<noteq>
                    stored_fingerprint (get_blob_properties client (store st) dest_path)"
    and upload_raises:
      "upload_blob client (store st) dest_path file_data True
         (new_content_settings (resolve_content_type sys (os_path_join root [file]))) = (Some err, s')"
    and stale: "name \<notin> files_to_keep dst"
    and delete_raises: "delete_blob client (store dst) name = (Some derr, ds')"
  shows "(\<exists>st'. upload_file sys client a st root file = Inr st' \<and>
            stdout st' = stdout st @ uploading_line (os_path_join root [file]) dest_path @
                           ''failed, error: '' @ str err @ ''\<newline>'' \<and>
            store st' = s' \<and>
            upload_phase sys client a st0 = upload_each sys client a st' rest) \<and>
         (\<exists>dst'. delete_if_stale client dst name = dst' \<and>
            stdout dst' = stdout dst @ ''Deleting '' @ name @ ''... '' @
                            ''failed, error: '' @ str derr @ ''\<newline>'' \<and>
            store dst' = ds' \<and>
            delete_stale client dst (name # names) = delete_stale client dst' names)"
proof -
  let ?path = "os_path_join root [file]"
  let ?st2 = "announced ?path dest_path st"
  let ?fp = "stored_fingerprint (get_blob_properties client (store st) dest_path)"
  let ?settings = "new_content_settings (resolve_content_type sys ?path)"
  from fetch have "\<forall>m. get_blob_properties client (store ?st2) dest_path \<noteq> Inl (Exception m)"
    by (simp add: announced_fields)
  from fetch_dest_md5_fingerprint [OF this]
  obtain r where fetched:
    "fetch_dest_md5 client dest_path ?st2 = Inr (?fp, record_call (GetBlobProperties dest_path) r ?st2)"
    by (auto simp: announced_fields)
  let ?st3 = "record_call (GetBlobProperties dest_path) r ?st2"
  let ?st' = "print (''failed, error: '' @ str err) ''\<newline>''
                (record_call (UploadBlob dest_path file_data True ?settings) (Some err)
                   (?st3\<lparr>store := s'\<rparr>))"
  have "upload_blob client (store ?st3) dest_path file_data True ?settings = (Some err, s')"
    using upload_raises by (simp add: record_call_fields announced_fields)
  with differs have "upload_if_changed client dest_path file_data (md5 sys file_data) ?fp ?settings ?st3
      = ?st'"
    by (rule upload_if_changed_raises)
  then have step: "upload_file sys client a st root file = Inr ?st'"
    using fetched by (simp add: upload_file_step [OF key data])
  have out: "stdout ?st' = stdout st @ uploading_line ?path dest_path @
                 ''failed, error: '' @ str err @ ''\<newline>''"
    by (simp add: print_fields record_call_fields announced_fields)
  have remote: "store ?st' = s'"
    by (simp add: print_fields record_call_fields)
  have "upload_phase sys client a st0 = upload_each sys client a ?st' rest"
    using upload_each_continues [OF before step] by (simp add: upload_phase_def upload_walk_each walk)
  with step out remote have uploads:
    "\<exists>st'. upload_file sys client a st root file = Inr st' \<and>
       stdout st' = stdout st @ uploading_line ?path dest_path @
                      ''failed, error: '' @ str err @ ''\<newline>'' \<and>
       store st' = s' \<and>
       upload_phase sys client a st0 = upload_each sys client a st' rest"
    by blast
  let ?dst' = "print (''failed, error: '' @ str derr) ''\<newline>''
                 (record_call (DeleteBlob name) (Some derr)
                    ((print (''Deleting '' @ name @ ''... '') [] dst)\<lparr>store := ds'\<rparr>))"
  have dstep: "delete_if_stale client dst name = ?dst'"
    using stale delete_raises by (rule delete_if_stale_raises)
  have dout: "stdout ?dst' = stdout dst @ ''Deleting '' @ name @ ''... '' @
                ''failed, error: '' @ str derr @ ''\<newline>''"
    by (simp add: print_fields record_call_fields)
  have dremote: "store ?dst' = ds'"
    by (simp add: print_fields record_call_fields)
  have "delete_stale client dst (name # names) = delete_stale client ?dst' names"
    by (simp add: delete_stale_def dstep)
  with dstep dout dremote have deletes:
    "\<exists>dst'. delete_if_stale client dst name = dst' \<and>
       stdout dst' = stdout dst @ ''Deleting '' @ name @ ''... '' @
                       ''failed, error: '' @ str derr @ ''\<newline>'' \<and>
       store dst' = ds' \<and>
       delete_stale client dst (name # names) = delete_stale client dst' names"
    by blast
  from uploads deletes show ?thesis
    by (rule conjI)
qed


theorem failures_do_not_stop_the_loops_witness:
  "(\<exists>st'. upload_file five_sys faulty_client site_args after_two_uploads ''/a'' ''3.txt'' = Inr st' \<and>
          stdout st' = stdout after_two_uploads @ uploading_line ''/a/3.txt'' ''site/3.txt'' @
                         ''failed, error: timed out'' @ ''\<newline>'' \<and>
          upload_phase five_sys faulty_client site_args (initial_state old_blobs) =
            upload_each five_sys faulty_client site_args st' [(''/a'', ''4.txt''), (''/a'', ''5.txt'')]) \<and>
   (\<exists>dst'. delete_if_stale faulty_client after_listing ''site/old1'' = dst' \<and>
          stdout dst' = stdout after_listing @ ''Deleting site/old1... '' @
                          ''failed, error: blob is leased'' @ ''\<newline>'' \<and>
          delete_stale faulty_client after_listing [''site/old1'', ''site/old2''] =
            delete_stale faulty_client dst' [''site/old2'']) \<and>
   (case sync_container five_sys faulty_client site_args old_blobs of
      Inl e \<Rightarrow> False
    | Inr st \<Rightarrow>
        stdout st =
          uploading_line ''/a/1.txt'' ''site/1.txt'' @ ''done'' @ ''\<newline>'' @
          uploading_line ''/a/2.txt'' ''site/2.txt'' @ ''done'' @ ''\<newline>'' @
          uploading_line ''/a/3.txt'' ''site/3.txt'' @ ''failed, error: timed out'' @ ''\<newline>'' @
          uploading_line ''/a/4.txt'' ''site/4.txt'' @ ''done'' @ ''\<newline>'' @
          uploading_line ''/a/5.txt'' ''site/5.txt'' @ ''done'' @ ''\<newline>'' @
          ''Deleting site/old1... failed, error: blob is leased'' @ ''\<newline>'' @
          ''Deleting site/old2... done'' @ ''\<newline>'' \<and>
        map fst (store st) =
          [''site/old1'', ''site/1.txt'', ''site/2.txt'', ''site/4.txt'', ''site/5.txt''])"
proof -
  have walk: "walk_files (os_walk five_sys (SOURCE site_args)) =
      [(''/a'', ''1.txt''), (''/a'', ''2.txt'')] @ (''/a'', ''3.txt'') #
      [(''/a'', ''4.txt''), (''/a'', ''5.txt'')]"
    by (simp add: run_defs step_defs five_defs)
  have before: "upload_each five_sys faulty_client site_args (initial_state old_blobs)
      [(''/a'', ''1.txt''), (''/a'', ''2.txt'')] = Inr after_two_uploads"
    by (simp add: after_two_uploads_def run_defs step_defs five_defs Let_def)
  have key: "dest_path_of five_sys site_args (os_path_join ''/a'' [''3.txt'']) = Inr ''site/3.txt''"
    by (simp add: run_defs five_defs)
  have data: "open_read five_sys (os_path_join ''/a'' [''3.txt'']) = Inr [3]"
    by (simp add: run_defs five_defs)
  have fetch: "\<forall>m. get_blob_properties faulty_client (store after_two_uploads) ''site/3.txt''
                 \<noteq> Inl (Exception m)"
    by (simp add: after_two_uploads_def run_defs step_defs five_defs Let_def)
  have differs: "Some (md5 five_sys [3]) \<noteq>
      stored_fingerprint (get_blob_properties faulty_client (store after_two_uploads) ''site/3.txt'')"
    by (simp add: after_two_uploads_def run_defs step_defs five_defs stored_fingerprint_def Let_def)
  have upload_raises: "upload_blob faulty_client (store after_two_uploads) ''site/3.txt'' [3] True
      (new_content_settings (resolve_content_type five_sys (os_path_join ''/a'' [''3.txt''])))
      = (Some (Exception ''timed out''), store after_two_uploads)"
    by (simp add: run_defs five_defs)
  have stale: "''site/old1'' \<notin> files_to_keep after_listing"
    by (simp add: after_listing_def run_defs step_defs five_defs Let_def)
  have delete_raises: "delete_blob faulty_client (store after_listing) ''site/old1''
      = (Some (Exception ''blob is leased''), store after_listing)"
    by (simp add: run_defs five_defs)
  note loops = failures_do_not_stop_the_loops
    [OF walk before key data fetch differs upload_raises stale delete_raises, of "[''site/old2'']"]
  have uploads: "\<exists>st'. upload_file five_sys faulty_client site_args after_two_uploads ''/a'' ''3.txt'' = Inr st' \<and>
          stdout st' = stdout after_two_uploads @ uploading_line ''/a/3.txt'' ''site/3.txt'' @
                         ''failed, error: timed out'' @ ''\<newline>'' \<and>
          upload_phase five_sys faulty_client site_args (initial_state old_blobs) =
            upload_each five_sys faulty_client site_args st' [(''/a'', ''4.txt''), (''/a'', ''5.txt'')]"
    using loops [THEN conjunct1] by (auto simp: os_path_join_def join_step_def startswith_def endswith_def)
  have deletes: "\<exists>dst'. delete_if_stale faulty_client after_listing ''site/old1'' = dst' \<and>
          stdout dst' = stdout after_listing @ ''Deleting site/old1... '' @
                          ''failed, error: blob is leased'' @ ''\<newline>'' \<and>
          delete_stale faulty_client after_listing [''site/old1'', ''site/old2''] =
            delete_stale faulty_client dst' [''site/old2'']"
    using loops [THEN conjunct2] by auto
  have whole: "case sync_container five_sys faulty_client site_args old_blobs of
      Inl e \<Rightarrow> False
    | Inr st \<Rightarrow>
        stdout st =
          uploading_line ''/a/1.txt'' ''site/1.txt'' @ ''done'' @ ''\<newline>'' @
          uploading_line ''/a/2.txt'' ''site/2.txt'' @ ''done'' @ ''\<newline>'' @
          uploading_line ''/a/3.txt'' ''site/3.txt'' @ ''failed, error: timed out'' @ ''\<newline>'' @
          uploading_line ''/a/4.txt'' ''site/4.txt'' @ ''done'' @ ''\<newline>'' @
          uploading_line ''/a/5.txt'' ''site/5.txt'' @ ''done'' @ ''\<newline>'' @
          ''Deleting site/old1... failed, error: blob is leased'' @ ''\<newline>'' @
          ''Deleting site/old2... done'' @ ''\<newline>'' \<and>
        map fst (store st) =
          [''site/old1'', ''site/1.txt'', ''site/2.txt'', ''site/4.txt'', ''site/5.txt'']"
    by (simp add: run_defs step_defs five_defs Let_def)
  from uploads deletes whole show ?thesis
    by (intro conjI)
qed


section \<open>The reconciliation\<close>










section \<open>Two runs in a row\<close>

lemma uploads_returned_append:
  "uploads_returned (xs @ ys) = (uploads_returned xs \<and> uploads_returned ys)"
  by (simp add: uploads_returned_def all_returned_def)

lemma upload_file_in_sync:
  assumes "in_sync sys client a (store st) (root, file)"
  shows "\<exists>st'. upload_file sys client a st root file = Inr st' \<and>
           store st' = store st \<and>
           upload_calls (calls_since st st') = [] \<and>
           stdout st' = stdout st @ skipped_report sys a [(root, file)]"
proof -
  let ?path = "os_path_join root [file]"
  from assms obtain dest_path file_data where
    key: "dest_path_of sys a ?path = Inr dest_path"
    and data: "open_read sys ?path = Inr file_data"
    and fetch: "\<forall>m. get_blob_properties client (store st) dest_path \<noteq> Inl (Exception m)"
    and same: "stored_fingerprint (get_blob_properties client (store st) dest_path)
                 = Some (md5 sys file_data)"
    by (auto simp: in_sync_def)
  let ?st2 = "announced ?path dest_path st"
  from fetch have "\<forall>m. get_blob_properties client (store ?st2) dest_path \<noteq> Inl (Exception m)"
    by (simp add: announced_fields)
  from fetch_dest_md5_fingerprint [OF this]
  obtain r where fetched: "fetch_dest_md5 client dest_path ?st2 =
      Inr (Some (md5 sys file_data), record_call (GetBlobProperties dest_path) r ?st2)"
    by (auto simp: announced_fields same)
  let ?st' = "print ''skipped'' ''\<newline>'' (record_call (GetBlobProperties dest_path) r ?st2)"
  have step: "upload_file sys client a st root file = Inr ?st'"
    using fetched by (simp add: upload_file_step [OF key data] upload_if_changed_same)
  have "store ?st' = store st"
    by (simp add: print_fields record_call_fields announced_fields)
  moreover have "upload_calls (calls_since st ?st') = []"
    by (simp add: print_fields record_call_fields announced_fields calls_since_def upload_calls_def)
  moreover have "stdout ?st' = stdout st @ skipped_report sys a [(root, file)]"
    by (simp add: print_fields record_call_fields announced_fields skipped_report_def key)
  ultimately show ?thesis
    using step by blast
qed

lemma calls_since_trans:
  assumes "calls st1 = calls st @ xs" and "calls st2 = calls st1 @ ys"
  shows "calls_since st st2 = calls_since st st1 @ calls_since st1 st2"
  using assms by (simp add: calls_since_def)

lemma upload_each_in_sync:
  assumes "\<forall>f \<in> set files. in_sync sys client a (store st) f"
  shows "\<exists>st'. upload_each sys client a st files = Inr st' \<and>
           store st' = store st \<and>
           upload_calls (calls_since st st') = [] \<and>
           stdout st' = stdout st @ skipped_report sys a files"
  using assms
proof (induction files arbitrary: st)
  case Nil
  show ?case
    by (simp add: calls_since_def upload_calls_def skipped_report_def)
next
  case (Cons f files)
  obtain root fname where f: "f = (root, fname)"
    by (cases f)
  from Cons.prems have "in_sync sys client a (store st) (root, fname)"
    by (simp add: f)
  from upload_file_in_sync [OF this]
  obtain st1 where step: "upload_file sys client a st root fname = Inr st1"
    and s1: "store st1 = store st"
    and c1: "upload_calls (calls_since st st1) = []"
    and o1: "stdout st1 = stdout st @ skipped_report sys a [(root, fname)]"
    by blast
  from Cons.prems have "\<forall>f \<in> set files. in_sync sys client a (store st1) f"
    by (simp add: s1)
  from Cons.IH [OF this]
  obtain st' where rest: "upload_each sys client a st1 files = Inr st'"
    and s2: "store st' = store st1"
    and c2: "upload_calls (calls_since st1 st') = []"
    and o2: "stdout st' = stdout st1 @ skipped_report sys a files"
    by blast
  obtain xs where xs: "calls st1 = calls st @ xs"
    using upload_file_calls [of sys client a st root fname] step by (auto simp: final_state_def)
  obtain ys where ys: "calls st' = calls st1 @ ys"
    using upload_each_calls [of sys client a st1 files] rest by (auto simp: final_state_def)
  have "upload_each sys client a st (f # files) = Inr st'"
    by (simp add: f step rest)
  moreover have "store st' = store st"
    by (simp add: s1 s2)
  moreover have "upload_calls (calls_since st st') = []"
    by (simp add: calls_since_trans [OF xs ys] upload_calls_append c1 c2)
  moreover have "stdout st' = stdout st @ skipped_report sys a (f # files)"
    by (simp add: o1 o2 f skipped_report_def)
  ultimately show ?case
    by blast
qed


lemma fetch_dest_md5_Inr:
  assumes "fetch_dest_md5 client dest_path st = Inr (dest_md5, st3)"
  shows "(\<forall>m. get_blob_properties client (store st) dest_path \<noteq> Inl (Exception m)) \<and>
         dest_md5 = stored_fingerprint (get_blob_properties client (store st) dest_path) \<and>
         (\<exists>r. st3 = record_call (GetBlobProperties dest_path) r st)"
  using assms
  by (auto simp: fetch_dest_md5_def stored_fingerprint_def split: sum.splits exn.splits)

lemma upload_file_Inr:
  assumes "upload_file sys client a st root file = Inr st'"
  shows "\<exists>dest_path file_data dest_md5 st3.
           dest_path_of sys a (os_path_join root [file]) = Inr dest_path \<and>
           open_read sys (os_path_join root [file]) = Inr file_data \<and>
           fetch_dest_md5 client dest_path (announced (os_path_join root [file]) dest_path st)
             = Inr (dest_md5, st3) \<and>
           st' = upload_if_changed client dest_path file_data (md5 sys file_data) dest_md5
                   (new_content_settings (resolve_content_type sys (os_path_join root [file]))) st3"
proof (cases "dest_path_of sys a (os_path_join root [file])")
  case (Inl e)
  with assms show ?thesis
    by (simp add: upload_file_no_key)
next
  case key: (Inr dest_path)
  show ?thesis
  proof (cases "open_read sys (os_path_join root [file])")
    case (Inl e)
    with assms key show ?thesis
      by (simp add: upload_file_unreadable)
  next
    case data: (Inr file_data)
    show ?thesis
    proof (cases "fetch_dest_md5 client dest_path (announced (os_path_join root [file]) dest_path st)")
      case (Inl e)
      with assms show ?thesis
        by (simp add: upload_file_step [OF key data])
    next
      case (Inr fetched)
      obtain dest_md5 st3 where "fetched = (dest_md5, st3)"
        by (cases fetched)
      with Inr assms key data show ?thesis
        by (simp add: upload_file_step [OF key data])
    qed
  qed
qed

lemma first_run_step:
  assumes populates: "\<forall>s name file_data settings s'.
        content_md5 settings = None \<longrightarrow>
        upload_blob client s name file_data True settings = (None, s') \<longrightarrow>
        (\<exists>props. get_blob_properties client s' name = Inr props \<and>
                 content_md5 (content_settings props) = Some (md5 sys file_data))"
    and frame: "\<forall>s name file_data settings s' other.
        upload_blob client s name file_data True settings = (None, s') \<longrightarrow> other \<noteq> name \<longrightarrow>
        get_blob_properties client s' other = get_blob_properties client s other"
    and step: "upload_file sys client a st root file = Inr st'"
    and ok: "uploads_returned (calls_since st st')"
  shows "in_sync sys client a (store st') (root, file) \<and>
         (\<forall>f. in_sync sys client a (store st) f \<longrightarrow>
              dest_path_of sys a (os_path_join (fst f) [snd f])
                \<noteq> dest_path_of sys a (os_path_join root [file]) \<longrightarrow>
              in_sync sys client a (store st') f)"
proof -
  let ?path = "os_path_join root [file]"
  let ?settings = "new_content_settings (resolve_content_type sys ?path)"
  from upload_file_Inr [OF step]
  obtain dest_path file_data dest_md5 st3 where
    key: "dest_path_of sys a ?path = Inr dest_path"
    and data: "open_read sys ?path = Inr file_data"
    and fetched: "fetch_dest_md5 client dest_path (announced ?path dest_path st) = Inr (dest_md5, st3)"
    and st': "st' = upload_if_changed client dest_path file_data (md5 sys file_data) dest_md5
                      ?settings st3"
    by blast
  from fetch_dest_md5_Inr [OF fetched]
  obtain r0 where fetch: "\<forall>m. get_blob_properties client (store st) dest_path \<noteq> Inl (Exception m)"
    and fp: "dest_md5 = stored_fingerprint (get_blob_properties client (store st) dest_path)"
    and st3: "st3 = record_call (GetBlobProperties dest_path) r0 (announced ?path dest_path st)"
    by (auto simp: announced_fields)
  have store3: "store st3 = store st" and calls3: "calls st3 = calls st @ [(GetBlobProperties dest_path, r0)]"
    by (simp_all add: st3 record_call_fields announced_fields)
  show ?thesis
  proof (cases "Some (md5 sys file_data) = dest_md5")
    case True
    then have "store st' = store st"
      by (simp add: st' upload_if_changed_same print_fields store3)
    moreover have "in_sync sys client a (store st) (root, file)"
      using key data fetch fp True by (auto simp: in_sync_def)
    ultimately show ?thesis
      by simp
  next
    case False
    have "\<exists>r s'. upload_blob client (store st3) dest_path file_data True ?settings = (r, s') \<and>
        upload_if_changed client dest_path file_data (md5 sys file_data) dest_md5 ?settings st3
        = print (case r of None \<Rightarrow> ''done'' | Some err \<Rightarrow> ''failed, error: '' @ str err) ''\<newline>''
            (record_call (UploadBlob dest_path file_data True ?settings) r (st3\<lparr>store := s'\<rparr>))"
      using False by (rule upload_if_changed_differs)
    then obtain r where "\<exists>s'. upload_blob client (store st3) dest_path file_data True ?settings = (r, s') \<and>
        upload_if_changed client dest_path file_data (md5 sys file_data) dest_md5 ?settings st3
        = print (case r of None \<Rightarrow> ''done'' | Some err \<Rightarrow> ''failed, error: '' @ str err) ''\<newline>''
            (record_call (UploadBlob dest_path file_data True ?settings) r (st3\<lparr>store := s'\<rparr>))"
      ..
    then obtain s' where both: "upload_blob client (store st3) dest_path file_data True ?settings = (r, s') \<and>
        upload_if_changed client dest_path file_data (md5 sys file_data) dest_md5 ?settings st3
        = print (case r of None \<Rightarrow> ''done'' | Some err \<Rightarrow> ''failed, error: '' @ str err) ''\<newline>''
            (record_call (UploadBlob dest_path file_data True ?settings) r (st3\<lparr>store := s'\<rparr>))"
      ..
    note up = both [THEN conjunct1] and after = both [THEN conjunct2]
    have store': "store st' = s'"
      by (simp add: st' after print_fields record_call_fields)
    have "calls st' = calls st @ [(GetBlobProperties dest_path, r0),
                                  (UploadBlob dest_path file_data True ?settings, r)]"
      by (simp add: st' after print_fields record_call_fields calls3)
    with ok have "r = None"
      by (simp add: calls_since_def uploads_returned_def all_returned_def)
    with up have uploaded: "upload_blob client (store st) dest_path file_data True ?settings = (None, s')"
      by (simp add: store3)
    have "content_md5 ?settings = None"
      by (simp add: new_content_settings_def)
    with populates uploaded obtain props where
      "get_blob_properties client s' dest_path = Inr props"
      "content_md5 (content_settings props) = Some (md5 sys file_data)"
      by blast
    then have this_file: "in_sync sys client a (store st') (root, file)"
      using key data by (auto simp: in_sync_def store' stored_fingerprint_def)
    have others: "in_sync sys client a (store st') f"
      if sync: "in_sync sys client a (store st) f"
        and other: "dest_path_of sys a (os_path_join (fst f) [snd f]) \<noteq> dest_path_of sys a ?path"
      for f
    proof -
      from sync obtain k d where
        k: "dest_path_of sys a (os_path_join (fst f) [snd f]) = Inr k"
        and d: "open_read sys (os_path_join (fst f) [snd f]) = Inr d"
        and g: "\<forall>m. get_blob_properties client (store st) k \<noteq> Inl (Exception m)"
        and e: "stored_fingerprint (get_blob_properties client (store st) k) = Some (md5 sys d)"
        by (auto simp: in_sync_def)
      from other k key have "k \<noteq> dest_path"
        by auto
      with frame uploaded have "get_blob_properties client s' k = get_blob_properties client (store st) k"
        by blast
      with k d g e show ?thesis
        by (auto simp: in_sync_def store')
    qed
    from this_file others show ?thesis
      by blast
  qed
qed


lemma dest_paths_Cons:
  "dest_paths sys a ((root, file) # files) =
     dest_path_of sys a (os_path_join root [file]) # dest_paths sys a files"
  by (simp add: dest_paths_def)

lemma dest_paths_mem:
  "f \<in> set files \<Longrightarrow> dest_path_of sys a (os_path_join (fst f) [snd f]) \<in> set (dest_paths sys a files)"
  by (auto simp: dest_paths_def case_prod_unfold)

lemma first_run_in_sync:
  assumes populates: "\<forall>s name file_data settings s'.
        content_md5 settings = None \<longrightarrow>
        upload_blob client s name file_data True settings = (None, s') \<longrightarrow>
        (\<exists>props. get_blob_properties client s' name = Inr props \<and>
                 content_md5 (content_settings props) = Some (md5 sys file_data))"
    and frame: "\<forall>s name file_data settings s' other.
        upload_blob client s name file_data True settings = (None, s') \<longrightarrow> other \<noteq> name \<longrightarrow>
        get_blob_properties client s' other = get_blob_properties client s other"
    and run: "upload_each sys client a st files = Inr st'"
    and ok: "uploads_returned (calls_since st st')"
    and dist: "distinct (dest_paths sys a files)"
    and earlier: "\<forall>f \<in> D. in_sync sys client a (store st) f \<and>
                    dest_path_of sys a (os_path_join (fst f) [snd f]) \<notin> set (dest_paths sys a files)"
  shows "\<forall>f \<in> D \<union> set files. in_sync sys client a (store st') f"
  using run ok dist earlier
proof (induction files arbitrary: st D)
  case Nil
  then show ?case
    by simp
next
  case (Cons f files)
  obtain root fname where f: "f = (root, fname)"
    by (cases f)
  let ?key = "dest_path_of sys a (os_path_join root [fname])"
  from Cons.prems(1) obtain st1 where
    step: "upload_file sys client a st root fname = Inr st1"
    and rest: "upload_each sys client a st1 files = Inr st'"
    by (auto simp: f split: sum.splits)
  obtain xs where xs: "calls st1 = calls st @ xs"
    using upload_file_calls [of sys client a st root fname] step by (auto simp: final_state_def)
  obtain ys where ys: "calls st' = calls st1 @ ys"
    using upload_each_calls [of sys client a st1 files] rest by (auto simp: final_state_def)
  from Cons.prems(2) have ok1: "uploads_returned (calls_since st st1)"
    and ok2: "uploads_returned (calls_since st1 st')"
    by (simp_all add: calls_since_trans [OF xs ys] uploads_returned_append)
  from first_run_step [OF populates frame step ok1]
  have this_file: "in_sync sys client a (store st1) (root, fname)"
    and others: "\<And>g. in_sync sys client a (store st) g \<Longrightarrow>
                   dest_path_of sys a (os_path_join (fst g) [snd g]) \<noteq> ?key \<Longrightarrow>
                   in_sync sys client a (store st1) g"
    by blast+
  from Cons.prems(3) have fresh: "?key \<notin> set (dest_paths sys a files)"
    and dist': "distinct (dest_paths sys a files)"
    by (simp_all add: f dest_paths_Cons)
  have "\<forall>g \<in> insert f D. in_sync sys client a (store st1) g \<and>
          dest_path_of sys a (os_path_join (fst g) [snd g]) \<notin> set (dest_paths sys a files)"
  proof
    fix g
    assume "g \<in> insert f D"
    then consider "g = f" | "g \<in> D"
      by blast
    then show "in_sync sys client a (store st1) g \<and>
        dest_path_of sys a (os_path_join (fst g) [snd g]) \<notin> set (dest_paths sys a files)"
    proof cases
      case 1
      with this_file fresh show ?thesis
        by (simp add: f)
    next
      case 2
      with Cons.prems(4) have g: "in_sync sys client a (store st) g"
        and away: "dest_path_of sys a (os_path_join (fst g) [snd g])
                     \<notin> set (dest_paths sys a (f # files))"
        by blast+
      from away have "dest_path_of sys a (os_path_join (fst g) [snd g]) \<noteq> ?key"
        and "dest_path_of sys a (os_path_join (fst g) [snd g]) \<notin> set (dest_paths sys a files)"
        by (simp_all add: f dest_paths_Cons)
      with others [OF g] show ?thesis
        by simp
    qed
  qed
  from Cons.IH [OF rest ok2 dist' this]
  show ?case
    by simp
qed

lemma mem_client_populates:
  assumes "content_md5 settings = None"
    and "upload_blob (mem_client (Some h) Map.empty initial) s name file_data True settings = (None, s')"
  shows "\<exists>props. get_blob_properties (mem_client (Some h) Map.empty initial) s' name = Inr props \<and>
           content_md5 (content_settings props) = Some (h file_data)"
proof -
  from assms(2) have "s' = AList.update name
      \<lparr>blob_data = file_data, blob_settings = stored_settings (Some h) file_data settings\<rparr> s"
    by (simp add: mem_client_def)
  then have "map_of s' name =
      Some \<lparr>blob_data = file_data, blob_settings = stored_settings (Some h) file_data settings\<rparr>"
    by (simp add: update_conv')
  then show ?thesis
    using assms(1) by (simp add: mem_client_def stored_settings_def)
qed

lemma mem_client_frame:
  assumes "upload_blob (mem_client service_md5 Map.empty initial) s name file_data True settings = (None, s')"
    and "other \<noteq> name"
  shows "get_blob_properties (mem_client service_md5 Map.empty initial) s' other =
         get_blob_properties (mem_client service_md5 Map.empty initial) s other"
proof -
  from assms(1) have "s' = AList.update name
      \<lparr>blob_data = file_data, blob_settings = stored_settings service_md5 file_data settings\<rparr> s"
    by (simp add: mem_client_def)
  then have "map_of s' other = map_of s other"
    using assms(2) by (simp add: update_conv')
  then show ?thesis
    by (simp add: mem_client_def)
qed

text \<open>
  C2, as the claim states it, fails. The upload call does not send the fingerprint, so
  against a service that stores the content settings as they are sent the blobs have no
  content MD5 after the first run, although every upload of the first run returned and
  no two files have the same key. The second run over the small site uploads all three
  files again and reports them \<^verbatim>\<open>done\<close>.
\<close>

theorem second_run_skips_counterexample:
  "uploads_returned (calls (final_state
      (upload_phase site_sys (mem_client None Map.empty []) site_args (initial_state [])))) \<and>
   distinct (dest_paths site_sys site_args (walk_files (os_walk site_sys (SOURCE site_args)))) \<and>
   upload_calls (calls (final_state
      (second_run site_sys (mem_client None Map.empty []) site_args []))) =
     [UploadBlob ''site/index.html'' [1, 2, 3] True
        \<lparr>content_type = Some ''text/html'', content_md5 = None\<rparr>,
      UploadBlob ''site/sub/x.txt'' [4] True
        \<lparr>content_type = Some ''text/plain'', content_md5 = None\<rparr>,
      UploadBlob ''site/sub/app.js.map'' [5, 6] True
        \<lparr>content_type = Some ''application/octet-stream'', content_md5 = None\<rparr>] \<and>
   stdout (final_state (second_run site_sys (mem_client None Map.empty []) site_args [])) =
     uploading_line ''/a/index.html'' ''site/index.html'' @ ''done'' @ ''\<newline>'' @
     uploading_line ''/a/sub/x.txt'' ''site/sub/x.txt'' @ ''done'' @ ''\<newline>'' @
     uploading_line ''/a/sub/app.js.map'' ''site/sub/app.js.map'' @ ''done'' @ ''\<newline>''"
  by code_simp


text \<open>
  C2, amended. The service fills in the content MD5 of a blob that is uploaded without
  one, with the digest the script uses, and an upload changes the properties of no other
  blob. The first upload phase ran to its end, none of its upload calls raised, and no
  two files of the walk have the same destination key. Then a second upload phase over
  the same files, from the container the first one left, runs to its end, issues no
  upload call, prints \<^verbatim>\<open>skipped\<close> for every file and leaves the container as it was.
\<close>

theorem second_run_skips_every_file:
  assumes populates: "\<forall>s name file_data settings s'.
        content_md5 settings = None \<longrightarrow>
        upload_blob client s name file_data True settings = (None, s') \<longrightarrow>
        (\<exists>props. get_blob_properties client s' name = Inr props \<and>
                 content_md5 (content_settings props) = Some (md5 sys file_data))"
    and frame: "\<forall>s name file_data settings s' other.
        upload_blob client s name file_data True settings = (None, s') \<longrightarrow> other \<noteq> name \<longrightarrow>
        get_blob_properties client s' other = get_blob_properties client s other"
    and first: "upload_phase sys client a (initial_state s0) = Inr st1"
    and ok: "uploads_returned (calls st1)"
    and dist: "distinct (dest_paths sys a (walk_files (os_walk sys (SOURCE a))))"
  shows "\<exists>st2. upload_phase sys client a (initial_state (store st1)) = Inr st2 \<and>
           upload_calls (calls st2) = [] \<and>
           stdout st2 = skipped_report sys a (walk_files (os_walk sys (SOURCE a))) \<and>
           store st2 = store st1"
proof -
  let ?files = "walk_files (os_walk sys (SOURCE a))"
  have run: "upload_each sys client a (initial_state s0) ?files = Inr st1"
    using first by (simp add: upload_phase_def upload_walk_each)
  have ok': "uploads_returned (calls_since (initial_state s0) st1)"
    using ok by (simp add: calls_since_def initial_state_def)
  have "\<forall>f \<in> {}. in_sync sys client a (store (initial_state s0)) f \<and>
          dest_path_of sys a (os_path_join (fst f) [snd f]) \<notin> set (dest_paths sys a ?files)"
    by simp
  from first_run_in_sync [OF populates frame run ok' dist this]
  have "\<forall>f \<in> set ?files. in_sync sys client a (store (initial_state (store st1))) f"
    by (simp add: initial_state_def)
  from upload_each_in_sync [OF this]
  obtain st2 where "upload_each sys client a (initial_state (store st1)) ?files = Inr st2"
    and "store st2 = store (initial_state (store st1))"
    and "upload_calls (calls_since (initial_state (store st1)) st2) = []"
    and "stdout st2 = stdout (initial_state (store st1)) @ skipped_report sys a ?files"
    by blast
  then have "upload_phase sys client a (initial_state (store st1)) = Inr st2 \<and>
      upload_calls (calls st2) = [] \<and>
      stdout st2 = skipped_report sys a ?files \<and>
      store st2 = store st1"
    by (simp add: upload_phase_def upload_walk_each initial_state_def calls_since_def)
  then show ?thesis
    by (rule exI)
qed


theorem second_run_skips_every_file_witness:
  "upload_phase site_sys (mem_client (Some digest16) Map.empty []) site_args (initial_state []) =
     Inr (final_state
       (upload_phase site_sys (mem_client (Some digest16) Map.empty []) site_args (initial_state []))) \<and>
   (\<exists>st2. second_run site_sys (mem_client (Some digest16) Map.empty []) site_args [] = Inr st2 \<and>
      upload_calls (calls st2) = [] \<and>
      stdout st2 =
        uploading_line ''/a/index.html'' ''site/index.html'' @ ''skipped'' @ ''\<newline>'' @
        uploading_line ''/a/sub/x.txt'' ''site/sub/x.txt'' @ ''skipped'' @ ''\<newline>'' @
        uploading_line ''/a/sub/app.js.map'' ''site/sub/app.js.map'' @ ''skipped'' @ ''\<newline>'')"
proof -
  let ?client = "mem_client (Some digest16) Map.empty []"
  let ?st1 = "final_state (upload_phase site_sys ?client site_args (initial_state []))"
  have md5: "md5 site_sys = digest16"
    by (simp add: md5_def site_sys_def mem_sys_def fun_eq_iff)
  have populates: "\<forall>s name file_data settings s'.
      content_md5 settings = None \<longrightarrow>
      upload_blob ?client s name file_data True settings = (None, s') \<longrightarrow>
      (\<exists>props. get_blob_properties ?client s' name = Inr props \<and>
               content_md5 (content_settings props) = Some (md5 site_sys file_data))"
    unfolding md5 by (intro allI impI) (rule mem_client_populates)
  have frame: "\<forall>s name file_data settings s' other.
      upload_blob ?client s name file_data True settings = (None, s') \<longrightarrow> other \<noteq> name \<longrightarrow>
      get_blob_properties ?client s' other = get_blob_properties ?client s other"
    by (intro allI impI) (rule mem_client_frame)
  have first: "upload_phase site_sys ?client site_args (initial_state []) = Inr ?st1"
    by (simp add: run_defs step_defs Let_def)
  have ok: "uploads_returned (calls ?st1)"
    by code_simp
  have dist: "distinct (dest_paths site_sys site_args (walk_files (os_walk site_sys (SOURCE site_args))))"
    by code_simp
  have report: "skipped_report site_sys site_args (walk_files (os_walk site_sys (SOURCE site_args))) =
      uploading_line ''/a/index.html'' ''site/index.html'' @ ''skipped'' @ ''\<newline>'' @
      uploading_line ''/a/sub/x.txt'' ''site/sub/x.txt'' @ ''skipped'' @ ''\<newline>'' @
      uploading_line ''/a/sub/app.js.map'' ''site/sub/app.js.map'' @ ''skipped'' @ ''\<newline>''"
    by code_simp
  from second_run_skips_every_file [OF populates frame first ok dist]
  obtain st2 where all: "upload_phase site_sys ?client site_args (initial_state (store ?st1)) = Inr st2 \<and>
      upload_calls (calls st2) = [] \<and>
      stdout st2 = skipped_report site_sys site_args (walk_files (os_walk site_sys (SOURCE site_args))) \<and>
      store st2 = store ?st1"
    ..
  have run2: "second_run site_sys ?client site_args [] = Inr st2"
    using all [THEN conjunct1] by (simp only: second_run_def)
  have none: "upload_calls (calls st2) = []"
    by (rule all [THEN conjunct2, THEN conjunct1])
  have out: "stdout st2 =
        uploading_line ''/a/index.html'' ''site/index.html'' @ ''skipped'' @ ''\<newline>'' @
        uploading_line ''/a/sub/x.txt'' ''site/sub/x.txt'' @ ''skipped'' @ ''\<newline>'' @
        uploading_line ''/a/sub/app.js.map'' ''site/sub/app.js.map'' @ ''skipped'' @ ''\<newline>''"
    using all [THEN conjunct2, THEN conjunct2, THEN conjunct1] by (simp only: report)
  from run2 none out have "\<exists>st2. second_run site_sys ?client site_args [] = Inr st2 \<and>
      upload_calls (calls st2) = [] \<and>
      stdout st2 =
        uploading_line ''/a/index.html'' ''site/index.html'' @ ''skipped'' @ ''\<newline>'' @
        uploading_line ''/a/sub/x.txt'' ''site/sub/x.txt'' @ ''skipped'' @ ''\<newline>'' @
        uploading_line ''/a/sub/app.js.map'' ''site/sub/app.js.map'' @ ''skipped'' @ ''\<newline>''"
    by (intro exI [of _ st2] conjI)
  with first show ?thesis
    by (rule conjI)
qed


section \<open>The destination key\<close>

lemma split_append_sep:
  "sep \<notin> set s \<Longrightarrow> split (s @ sep # t) sep = s # split t sep"
  by (induction s) auto


lemma split_no_sep:
  "sep \<notin> set s \<Longrightarrow> split s sep = [s]"
  by (induction s) auto


lemma split_sep_join:
  "segs \<noteq> [] \<Longrightarrow> \<forall>seg \<in> set segs. sep \<notin> set seg \<Longrightarrow> split (sep_join [sep] segs) sep = segs"
proof (induction "[sep]" segs rule: sep_join.induct)
  case 1
  then show ?case by simp
next
  case (2 x)
  then show ?case by (simp add: split_no_sep)
next
  case (3 x y ys)
  then show ?case by (simp add: split_append_sep)
qed


lemma sep_join_Cons:
  "sep_join sep (x # xs) = x @ concat (map (\<lambda>b. sep @ b) xs)"
  by (induction xs arbitrary: x) auto


lemma commonprefix_append:
  "commonprefix xs (xs @ ys) = xs"
  by (induction xs) auto


lemma endswith_char:
  "endswith p [c] = (p \<noteq> [] \<and> last p = c)"
proof (cases p rule: rev_cases)
  case Nil
  then show ?thesis
    by (simp add: endswith_def)
next
  case (snoc ys y)
  then show ?thesis
    by (simp add: endswith_def)
qed


lemma join_plain:
  assumes "\<forall>b \<in> set bs. plain b" and "p \<noteq> []" and "last p \<noteq> CHR ''/''"
  shows "os_path_join p bs = p @ concat (map (\<lambda>b. ''/'' @ b) bs)"
  using assms
proof (induction bs arbitrary: p)
  case Nil
  show ?case by (simp add: os_path_join_def)
next
  case (Cons b bs)
  from Cons.prems obtain x xs where b: "b = x # xs" "x \<noteq> CHR ''/''"
    by (cases b) (auto simp: plain_def)
  have "last b \<in> set b"
    using b by (intro last_in_set) simp
  moreover have "CHR ''/'' \<notin> set b"
    using Cons.prems(1) by (simp add: plain_def)
  ultimately have b_last: "last b \<noteq> CHR ''/''"
    by metis
  have not_end: "\<not> endswith p ''/''"
    using Cons.prems(3) by (simp add: endswith_char)
  have step: "join_step p b = p @ ''/'' @ b"
    using b not_end Cons.prems(2) by (simp add: join_step_def startswith_def)
  have "last (p @ ''/'' @ b) \<noteq> CHR ''/''"
    using b b_last by simp
  with Cons.IH [of "p @ ''/'' @ b"] Cons.prems(1)
  have "os_path_join (p @ ''/'' @ b) bs = (p @ ''/'' @ b) @ concat (map (\<lambda>b. ''/'' @ b) bs)"
    by simp
  then show ?case
    by (simp add: os_path_join_def step)
qed



lemma last_plain:
  assumes "plain seg"
  shows "last seg \<noteq> CHR ''/''"
proof -
  have "last seg \<in> set seg"
    using assms by (intro last_in_set) (simp add: plain_def)
  moreover have "CHR ''/'' \<notin> set seg"
    using assms by (simp add: plain_def)
  ultimately show ?thesis
    by metis
qed


lemma split_not_Nil:
  "split xs sep \<noteq> []"
  by (cases xs) (auto split: list.splits)

lemma split_append:
  "split (xs @ sep # ys) sep = split xs sep @ split ys sep"
proof (induction xs)
  case Nil
  show ?case by simp
next
  case (Cons x xs)
  obtain y rest where "split xs sep = y # rest"
    using split_not_Nil [of xs sep] by (cases "split xs sep") auto
  with Cons show ?case
    by simp
qed

lemma split_parts:
  "c \<in> set (split xs sep) \<Longrightarrow> sep \<notin> set c"
proof (induction xs arbitrary: c)
  case Nil
  then show ?case by simp
next
  case (Cons x xs)
  obtain y rest where yr: "split xs sep = y # rest"
    using split_not_Nil [of xs sep] by (cases "split xs sep") auto
  then have "sep \<notin> set y" and "\<forall>d \<in> set rest. sep \<notin> set d"
    using Cons.IH by simp_all
  with Cons.prems yr show ?case
    by (auto split: if_splits)
qed

lemma split_slashes:
  "split (replicate k sep @ t) sep = replicate k [] @ split t sep"
  by (induction k) simp_all

lemma normpath_step_two:
  "normpath_step (Suc (Suc 0)) = normpath_step (Suc 0)"
  by (simp add: fun_eq_iff normpath_step_def)

lemma normpath_step_plain:
  "plain seg \<Longrightarrow> normpath_step n acc seg = acc @ [seg]"
  by (simp add: normpath_step_def plain_def)

lemma normpath_step_empty:
  "normpath_step n acc [] = acc"
  by (simp add: normpath_step_def)

lemma normpath_step_clean:
  assumes "\<forall>d \<in> set acc. d \<noteq> [] \<and> CHR ''/'' \<notin> set d" and "CHR ''/'' \<notin> set c"
  shows "\<forall>d \<in> set (normpath_step n acc c). d \<noteq> [] \<and> CHR ''/'' \<notin> set d"
proof -
  have "\<forall>d \<in> set (butlast acc). d \<noteq> [] \<and> CHR ''/'' \<notin> set d"
    using assms(1) by (meson in_set_butlastD)
  with assms show ?thesis
    by (auto simp: normpath_step_def)
qed

lemma normpath_steps_clean:
  assumes "\<forall>d \<in> set acc. d \<noteq> [] \<and> CHR ''/'' \<notin> set d" and "\<forall>c \<in> set cs. CHR ''/'' \<notin> set c"
  shows "\<forall>d \<in> set (foldl (normpath_step n) acc cs). d \<noteq> [] \<and> CHR ''/'' \<notin> set d"
  using assms
proof (induction cs arbitrary: acc)
  case Nil
  then show ?case by simp
next
  case (Cons c cs)
  have "\<forall>d \<in> set (normpath_step n acc c). d \<noteq> [] \<and> CHR ''/'' \<notin> set d"
    using Cons.prems by (intro normpath_step_clean) simp_all
  with Cons.IH [of "normpath_step n acc c"] Cons.prems(2) show ?case
    by simp
qed

lemma norm_comps_clean:
  "\<forall>d \<in> set (norm_comps p). d \<noteq> [] \<and> CHR ''/'' \<notin> set d"
  unfolding norm_comps_def
  by (intro normpath_steps_clean) (simp_all add: split_parts)

lemma isabs_not_Nil:
  "isabs p \<Longrightarrow> p \<noteq> []"
  by (auto simp: isabs_def startswith_def)

lemma isabs_append:
  "isabs p \<Longrightarrow> isabs (p @ q)"
  by (cases p) (simp_all add: isabs_def startswith_def)

lemma normpath_absolute:
  assumes "isabs p"
  shows "\<exists>k. normpath p = replicate (Suc k) CHR ''/'' @ sep_join ''/'' (norm_comps p)"
proof -
  have p: "p \<noteq> []" "startswith p ''/''"
    using assms by (simp_all add: isabs_not_Nil isabs_def)
  show ?thesis
  proof (cases "startswith p ''//'' \<and> \<not> startswith p ''///''")
    case True
    with p have "normpath p = replicate (Suc (Suc 0)) CHR ''/'' @ sep_join ''/'' (norm_comps p)"
      by (simp add: normpath_def norm_comps_def normpath_step_two Let_def numeral_2_eq_2)
    then show ?thesis
      by (rule exI)
  next
    case False
    with p have "normpath p = replicate (Suc 0) CHR ''/'' @ sep_join ''/'' (norm_comps p)"
      by (auto simp: normpath_def norm_comps_def Let_def)
    then show ?thesis
      by (rule exI)
  qed
qed

lemma components_of_normal_path:
  assumes "\<forall>d \<in> set comps. d \<noteq> [] \<and> CHR ''/'' \<notin> set d"
  shows "filter (\<lambda>x. x \<noteq> []) (split (replicate k CHR ''/'' @ sep_join ''/'' comps) CHR ''/'') = comps"
proof (cases "comps = []")
  case True
  have "split (replicate k CHR ''/'' @ []) CHR ''/'' = replicate k [] @ split [] CHR ''/''"
    by (rule split_slashes)
  with True show ?thesis
    by simp
next
  case False
  then have "split (sep_join ''/'' comps) CHR ''/'' = comps"
    using assms by (intro split_sep_join) simp_all
  moreover have "filter (\<lambda>x. x \<noteq> []) comps = comps"
    using assms by (simp add: filter_id_conv)
  ultimately show ?thesis
    by (simp add: split_slashes)
qed

lemma components_of_normpath:
  assumes "isabs p"
  shows "filter (\<lambda>x. x \<noteq> []) (split (normpath p) CHR ''/'') = norm_comps p"
proof -
  obtain k where "normpath p = replicate (Suc k) CHR ''/'' @ sep_join ''/'' (norm_comps p)"
    using normpath_absolute [OF assms] ..
  then show ?thesis
    using components_of_normal_path [OF norm_comps_clean, of "Suc k" p] by simp
qed

lemma plain_not_absolute:
  "plain seg \<Longrightarrow> \<not> startswith seg ''/''"
  by (cases seg) (auto simp: plain_def startswith_def)

lemma norm_comps_join_step:
  assumes "isabs p" and "plain seg"
  shows "norm_comps (join_step p seg) = norm_comps p @ [seg]"
proof (cases "endswith p ''/''")
  case True
  then obtain q where q: "p = q @ ''/''"
    by (metis append_take_drop_id endswith_def)
  have "CHR ''/'' \<notin> set seg"
    using assms(2) by (simp add: plain_def)
  then have "split (q @ CHR ''/'' # seg) CHR ''/'' = split q CHR ''/'' @ [seg]"
    by (simp add: split_append split_no_sep)
  moreover have "split p CHR ''/'' = split q CHR ''/'' @ [[]]"
    by (simp add: q split_append)
  moreover have "join_step p seg = q @ CHR ''/'' # seg"
    using True assms by (simp add: join_step_def plain_not_absolute q)
  ultimately show ?thesis
    using assms(2) by (simp add: norm_comps_def normpath_step_plain normpath_step_empty)
next
  case False
  have "CHR ''/'' \<notin> set seg"
    using assms(2) by (simp add: plain_def)
  then have "split (p @ CHR ''/'' # seg) CHR ''/'' = split p CHR ''/'' @ [seg]"
    by (simp add: split_append split_no_sep)
  moreover have "join_step p seg = p @ CHR ''/'' # seg"
    using False assms by (simp add: join_step_def plain_not_absolute isabs_not_Nil)
  ultimately show ?thesis
    using assms(2) by (simp add: norm_comps_def normpath_step_plain)
qed

lemma isabs_join_step:
  assumes "plain seg"
  shows "isabs (join_step p seg) = isabs p"
proof (cases p)
  case Nil
  have "\<not> startswith [] ''/''"
    by (simp add: startswith_def)
  with Nil assms show ?thesis
    by (simp add: join_step_def isabs_def plain_not_absolute)
next
  case (Cons x xs)
  have "join_step p seg = (if endswith p ''/'' then p @ seg else p @ ''/'' @ seg)"
    using assms Cons by (simp add: join_step_def plain_not_absolute)
  then show ?thesis
    by (simp add: isabs_def startswith_def Cons)
qed

lemma norm_comps_joined:
  assumes "isabs p" and "\<forall>seg \<in> set segs. plain seg"
  shows "norm_comps (foldl join_step p segs) = norm_comps p @ segs"
  using assms
proof (induction segs arbitrary: p)
  case Nil
  show ?case by simp
next
  case (Cons seg segs)
  then have "plain seg"
    by simp
  with Cons.prems(1) have "isabs (join_step p seg)"
    and "norm_comps (join_step p seg) = norm_comps p @ [seg]"
    by (simp_all add: isabs_join_step norm_comps_join_step)
  with Cons.IH [of "join_step p seg"] Cons.prems(2) show ?case
    by simp
qed

lemma isabs_joined:
  "\<forall>seg \<in> set segs. plain seg \<Longrightarrow> isabs (foldl join_step p segs) = isabs p"
  by (induction segs arbitrary: p) (simp_all add: isabs_join_step)

lemma join_step_under:
  assumes "c \<noteq> []" and "last c = CHR ''/''" and "\<not> startswith seg ''/''"
  shows "join_step (c @ p) seg = c @ join_step p seg"
  using assms by (cases "p = []") (simp_all add: join_step_def endswith_char)

lemma joined_under:
  assumes "c \<noteq> []" and "last c = CHR ''/''" and "\<forall>seg \<in> set segs. plain seg"
  shows "foldl join_step (c @ p) segs = c @ foldl join_step p segs"
  using assms(3)
proof (induction segs arbitrary: p)
  case Nil
  show ?case by simp
next
  case (Cons seg segs)
  then have "\<not> startswith seg ''/''"
    by (simp add: plain_not_absolute)
  with assms(1,2) have "join_step (c @ p) seg = c @ join_step p seg"
    by (rule join_step_under)
  with Cons show ?case
    by simp
qed

lemma join_cwd:
  assumes "isabs cwd" and "\<not> isabs p"
  shows "os_path_join cwd [p] = (if endswith cwd ''/'' then cwd else cwd @ ''/'') @ p"
  using assms by (simp add: os_path_join_def join_step_def isabs_def isabs_not_Nil)

lemma made_absolute:
  assumes "isabs cwd \<or> isabs p" and "\<forall>seg \<in> set segs. plain seg"
  shows "isabs (if isabs p then p else os_path_join cwd [p])"
    and "(if isabs (foldl join_step p segs) then foldl join_step p segs
          else os_path_join cwd [foldl join_step p segs]) =
         foldl join_step (if isabs p then p else os_path_join cwd [p]) segs"
proof -
  let ?c = "if endswith cwd ''/'' then cwd else cwd @ ''/''"
  show "isabs (if isabs p then p else os_path_join cwd [p])"
  proof (cases "isabs p")
    case True
    then show ?thesis by simp
  next
    case False
    with assms(1) have "isabs cwd"
      by simp
    then show ?thesis
      using False by (simp add: join_cwd isabs_append)
  qed
  show "(if isabs (foldl join_step p segs) then foldl join_step p segs
          else os_path_join cwd [foldl join_step p segs]) =
         foldl join_step (if isabs p then p else os_path_join cwd [p]) segs"
  proof (cases "isabs p")
    case True
    then show ?thesis
      using assms(2) by (simp add: isabs_joined)
  next
    case False
    with assms(1) have cwd: "isabs cwd"
      by simp
    have later: "\<not> isabs (foldl join_step p segs)"
      using False assms(2) by (simp add: isabs_joined)
    have "?c \<noteq> []" and "last ?c = CHR ''/''"
      using cwd by (auto simp: endswith_char isabs_not_Nil)
    then have "foldl join_step (?c @ p) segs = ?c @ foldl join_step p segs"
      using assms(2) by (rule joined_under)
    then show ?thesis
      using False later by (simp add: join_cwd [OF cwd])
  qed
qed

lemma join_step_not_Nil:
  "seg \<noteq> [] \<Longrightarrow> join_step p seg \<noteq> []"
  by (simp add: join_step_def)

lemma relpath_of_joined:
  assumes abs: "isabs cwd \<or> isabs start"
    and segs: "\<forall>seg \<in> set segs. plain seg"
    and some: "segs \<noteq> []"
  shows "os_path_relpath cwd (os_path_join start segs) start = Inr (sep_join ''/'' segs)"
proof -
  let ?a = "if isabs start then start else os_path_join cwd [start]"
  have a: "isabs ?a"
    using abs segs by (rule made_absolute(1))
  have start_list: "filter (\<lambda>x. x \<noteq> []) (split (abspath cwd start) CHR ''/'') = norm_comps ?a"
    using components_of_normpath [OF a] by (simp add: abspath_def)
  have "abspath cwd (os_path_join start segs) = normpath (foldl join_step ?a segs)"
    using made_absolute(2) [OF abs segs] by (simp add: abspath_def os_path_join_def)
  moreover have "isabs (foldl join_step ?a segs)"
    using a segs by (simp add: isabs_joined)
  ultimately have path_list:
    "filter (\<lambda>x. x \<noteq> []) (split (abspath cwd (os_path_join start segs)) CHR ''/'')
       = norm_comps ?a @ segs"
    using components_of_normpath [of "foldl join_step ?a segs"] norm_comps_joined [OF a segs]
    by simp
  from some obtain r rs where r: "segs = r # rs"
    by (cases segs) auto
  with segs have "plain r" and rs: "\<forall>b \<in> set rs. plain b"
    by simp_all
  then have "r \<noteq> []" and "last r \<noteq> CHR ''/''"
    by (simp_all add: plain_def last_plain)
  with rs have "os_path_join r rs = r @ concat (map (\<lambda>b. ''/'' @ b) rs)"
    by (intro join_plain)
  then have joined: "os_path_join r rs = sep_join ''/'' (r # rs)"
    by (simp add: sep_join_Cons)
  have "os_path_join start segs \<noteq> []"
  proof (cases segs rule: rev_cases)
    case Nil
    with some show ?thesis by simp
  next
    case (snoc ys y)
    with segs have "y \<noteq> []"
      by (simp add: plain_def)
    with snoc show ?thesis
      by (simp add: os_path_join_def join_step_not_Nil)
  qed
  then show ?thesis
    by (simp add: os_path_relpath_def start_list path_list commonprefix_append Let_def)
       (simp add: r joined)
qed

text \<open>
  C5. \<^verbatim>\<open>os.walk\<close> yields \<^verbatim>\<open>SOURCE\<close> itself and, below it, the directories it reaches by
  joining directory names to it; the names of directories and files are plain segments.
  \<^verbatim>\<open>SOURCE\<close> may be relative, hold \<^verbatim>\<open>.\<close> and \<^verbatim>\<open>..\<close> or end in a slash, as long as
  the working directory is absolute. Then the destination key of the file \<open>file\<close> of the
  directory reached through \<open>dirs\<close> is \<^verbatim>\<open>DEST\<close> without its leading slashes, joined with
  the path of the file relative to \<^verbatim>\<open>SOURCE\<close>: the directory names and the file name
  with a slash between them, after the prefix and a slash, the slash left out when the
  prefix is empty or ends in one. For \<^verbatim>\<open>SOURCE=/a\<close> and \<^verbatim>\<open>DEST=/site\<close> the file
  \<^verbatim>\<open>/a/sub/x.txt\<close> has the key \<^verbatim>\<open>site/sub/x.txt\<close>.
\<close>

theorem dest_path_is_prefix_joined_with_relative_path:
  assumes abs: "isabs (getcwd sys) \<or> isabs (SOURCE a)"
    and segs: "\<forall>seg \<in> set (dirs @ [file]). plain seg"
    and root: "root = os_path_join (SOURCE a) dirs"
  shows "dest_path_of sys a (os_path_join root [file]) =
           Inr (let prefix = dropWhile (\<lambda>c. c = CHR ''/'') (DEST a);
                    rel = sep_join ''/'' (dirs @ [file])
                in if prefix = [] \<or> last prefix = CHR ''/'' then prefix @ rel
                   else prefix @ ''/'' @ rel)"
proof -
  let ?rel = "sep_join ''/'' (dirs @ [file])"
  let ?prefix = "dropWhile (\<lambda>c. c = CHR ''/'') (DEST a)"
  have path: "os_path_join root [file] = os_path_join (SOURCE a) (dirs @ [file])"
    by (simp add: root os_path_join_def)
  have rel: "os_path_relpath (getcwd sys) (os_path_join (SOURCE a) (dirs @ [file])) (SOURCE a)
      = Inr ?rel"
    using abs segs by (intro relpath_of_joined) simp_all
  obtain r rs where r: "dirs @ [file] = r # rs"
    by (cases "dirs @ [file]") auto
  with segs have "plain r"
    by (metis list.set_intros(1))
  then have "\<not> startswith r ''/''" and "r \<noteq> []"
    by (simp_all add: plain_not_absolute plain_def)
  then have "\<not> startswith ?rel ''/''"
    unfolding r by (cases r) (simp_all add: sep_join_Cons startswith_def)
  then have joined: "join_step ?prefix ?rel =
      (if ?prefix = [] \<or> last ?prefix = CHR ''/'' then ?prefix @ ?rel else ?prefix @ ''/'' @ ?rel)"
    by (simp add: join_step_def endswith_char)
  have prefix: "dest_prefix a = ?prefix"
    by (simp add: dest_prefix_def lstrip_def)
  have "dest_path_of sys a (os_path_join root [file]) = Inr (os_path_join (dest_prefix a) [?rel])"
    unfolding path by (simp add: dest_path_of_def rel)
  also have "os_path_join (dest_prefix a) [?rel] = join_step ?prefix ?rel"
    by (simp add: os_path_join_def prefix)
  finally show ?thesis
    unfolding joined Let_def .
qed

theorem dest_path_is_prefix_joined_with_relative_path_witness:
  "SOURCE site_args = ''/a'' \<and> DEST site_args = ''/site'' \<and>
   os_path_join (os_path_join ''/a'' [''sub'']) [''x.txt''] = ''/a/sub/x.txt'' \<and>
   dest_path_of site_sys site_args ''/a/sub/x.txt'' = Inr ''site/sub/x.txt'' \<and>
   getcwd site_sys = ''/home/user'' \<and>
   dest_path_of site_sys \<lparr>SOURCE = ''../build/'', DEST = ''//web/'', sync = False, container = ''$web''\<rparr>
     ''../build/js/app.js'' = Inr ''web/js/app.js''"
proof -
  let ?args = "\<lparr>SOURCE = ''../build/'', DEST = ''//web/'', sync = False, container = ''$web''\<rparr>"
  have abs: "isabs (getcwd site_sys) \<or> isabs (SOURCE site_args)"
    by (simp add: site_args_def isabs_def startswith_def)
  have segs: "\<forall>seg \<in> set ([''sub''] @ [''x.txt'']). plain seg"
    by (simp add: plain_def)
  have root: "os_path_join ''/a'' [''sub''] = os_path_join (SOURCE site_args) [''sub'']"
    by (simp add: site_args_def)
  have path: "os_path_join (os_path_join ''/a'' [''sub'']) [''x.txt''] = ''/a/sub/x.txt''"
    by (simp add: os_path_join_def join_step_def startswith_def endswith_def)
  have first: "dest_path_of site_sys site_args ''/a/sub/x.txt'' = Inr ''site/sub/x.txt''"
    using dest_path_is_prefix_joined_with_relative_path [OF abs segs root]
    by (simp add: path site_args_def)
  have cwd: "getcwd site_sys = ''/home/user''"
    by (simp add: site_sys_def mem_sys_def)
  have abs': "isabs (getcwd site_sys) \<or> isabs (SOURCE ?args)"
    by (simp add: cwd isabs_def startswith_def)
  have segs': "\<forall>seg \<in> set ([''js''] @ [''app.js'']). plain seg"
    by (simp add: plain_def)
  have root': "os_path_join ''../build/'' [''js''] = os_path_join (SOURCE ?args) [''js'']"
    by simp
  have path': "os_path_join (os_path_join ''../build/'' [''js'']) [''app.js''] = ''../build/js/app.js''"
    by (simp add: os_path_join_def join_step_def startswith_def endswith_def)
  have second: "dest_path_of site_sys ?args ''../build/js/app.js'' = Inr ''web/js/app.js''"
    using dest_path_is_prefix_joined_with_relative_path [OF abs' segs' root']
    by (simp add: path')
  from first second cwd path show ?thesis
    by (simp add: site_args_def)
qed

section \<open>The content type\<close>

lemma endswith_append:
  "endswith path suffix \<Longrightarrow> \<exists>pre. path = pre @ suffix"
  by (metis append_take_drop_id endswith_def)

lemma splitext_map:
  "snd (splitext (pre @ ''.map'')) = ''.map'' \<or> snd (splitext (pre @ ''.map'')) = []"
  by (simp add: splitext_def Let_def)

lemma splitext_ttf:
  "snd (splitext (pre @ ''.ttf'')) = ''.ttf'' \<or> snd (splitext (pre @ ''.ttf'')) = []"
  by (simp add: splitext_def Let_def)

lemma suffix_loop_stops:
  "suffix_map ext = None \<Longrightarrow> suffix_loop base ext = (base, ext)"
  by simp

lemma guess_type_plain_extension:
  assumes "splittype path = (None, path)"
    and "suffix_map (snd (splitext path)) = None"
    and "encodings_map (snd (splitext path)) = None"
  shows "fst (guess_type table path) =
           (case table (snd (splitext path)) of
              Some t \<Rightarrow> Some t
            | None \<Rightarrow> table (lower (snd (splitext path))))"
  using assms
  by (simp add: guess_type_def suffix_loop_stops Let_def case_prod_unfold split: option.splits)

lemma resolve_overridden:
  assumes noscheme: "splittype path = (None, path)"
    and empty: "mimetypes_init sys [] = None"
    and ext: "snd (splitext path) = e \<or> snd (splitext path) = []"
    and e: "e = ''.map'' \<or> e = ''.ttf''"
  shows "resolve_content_type sys path = ''application/octet-stream''"
proof -
  let ?ext = "snd (splitext path)"
  have s: "suffix_map ?ext = None" and c: "encodings_map ?ext = None"
    using ext e by (auto simp: suffix_map_def encodings_map_def)
  have "fst (guess_type (types_map sys) path) = Some ''application/octet-stream'' \<or>
        fst (guess_type (types_map sys) path) = None"
    using ext e empty
    by (auto simp: guess_type_plain_extension [OF noscheme s c] types_map_def lower_def)
  then show ?thesis
    by (auto simp: resolve_content_type_def)
qed

text \<open>
  C8, as the claim states it, fails in two ways, although the table maps \<^verbatim>\<open>.html\<close> to
  \<^verbatim>\<open>text/html\<close>. The file \<^verbatim>\<open>/a/.html\<close> ends in \<^verbatim>\<open>.html\<close> but has no extension (leading dots
  do not start one), so it resolves to \<^verbatim>\<open>application/octet-stream\<close>. The file \<^verbatim>\<open>css,x.map\<close>
  of the source directory \<^verbatim>\<open>data:text\<close> has the path \<^verbatim>\<open>data:text/css,x.map\<close>, which
  \<^verbatim>\<open>guess_type\<close> reads as a \<^verbatim>\<open>data:\<close> URL of the media type \<^verbatim>\<open>text/css\<close>.
\<close>

theorem content_type_by_suffix_counterexample:
  "mimetypes_init site_sys ''.html'' = Some ''text/html'' \<and>
   endswith ''/a/.html'' ''.html'' \<and>
   resolve_content_type site_sys ''/a/.html'' = ''application/octet-stream'' \<and>
   endswith ''data:text/css,x.map'' ''.map'' \<and>
   resolve_content_type site_sys ''data:text/css,x.map'' = ''text/css''"
  by (simp add: run_defs Let_def)

text \<open>
  C8, amended. For a path that carries no URL scheme, and a system table with no entry for
  the empty extension: a path that ends in \<^verbatim>\<open>.map\<close> or in \<^verbatim>\<open>.ttf\<close> resolves to
  \<^verbatim>\<open>application/octet-stream\<close>; a path whose extension is \<^verbatim>\<open>.html\<close> resolves to \<^verbatim>\<open>text/html\<close>
  when the system table maps \<^verbatim>\<open>.html\<close> to it; and a path whose extension is no key of
  \<^verbatim>\<open>suffix_map\<close> or \<^verbatim>\<open>encodings_map\<close> and is in the table neither as it is nor in lower case
  resolves to \<^verbatim>\<open>application/octet-stream\<close>. The extension is what \<^verbatim>\<open>splitext\<close> gives.
\<close>

theorem content_type_by_extension:
  assumes noscheme: "splittype path = (None, path)"
    and empty: "mimetypes_init sys [] = None"
  shows "(endswith path ''.map'' \<longrightarrow> resolve_content_type sys path = ''application/octet-stream'') \<and>
         (endswith path ''.ttf'' \<longrightarrow> resolve_content_type sys path = ''application/octet-stream'') \<and>
         (snd (splitext path) = ''.html'' \<longrightarrow> mimetypes_init sys ''.html'' = Some ''text/html'' \<longrightarrow>
            resolve_content_type sys path = ''text/html'') \<and>
         (suffix_map (snd (splitext path)) = None \<longrightarrow>
          encodings_map (snd (splitext path)) = None \<longrightarrow>
          types_map sys (snd (splitext path)) = None \<longrightarrow>
          types_map sys (lower (snd (splitext path))) = None \<longrightarrow>
            resolve_content_type sys path = ''application/octet-stream'')"
proof -
  have map: "resolve_content_type sys path = ''application/octet-stream''"
    if "endswith path ''.map''"
  proof -
    from that obtain pre where "path = pre @ ''.map''"
      using endswith_append by blast
    then have ext: "snd (splitext path) = ''.map'' \<or> snd (splitext path) = []"
      using splitext_map by simp
    have e: "''.map'' = ''.map'' \<or> ''.map'' = ''.ttf''"
      by simp
    show ?thesis
      using noscheme empty ext e by (rule resolve_overridden)
  qed
  have ttf: "resolve_content_type sys path = ''application/octet-stream''"
    if "endswith path ''.ttf''"
  proof -
    from that obtain pre where "path = pre @ ''.ttf''"
      using endswith_append by blast
    then have ext: "snd (splitext path) = ''.ttf'' \<or> snd (splitext path) = []"
      using splitext_ttf by simp
    have e: "''.ttf'' = ''.map'' \<or> ''.ttf'' = ''.ttf''"
      by simp
    show ?thesis
      using noscheme empty ext e by (rule resolve_overridden)
  qed
  have html: "resolve_content_type sys path = ''text/html''"
    if ext: "snd (splitext path) = ''.html''" and known: "mimetypes_init sys ''.html'' = Some ''text/html''"
  proof -
    have s: "suffix_map (snd (splitext path)) = None" and c: "encodings_map (snd (splitext path)) = None"
      by (simp_all add: ext suffix_map_def encodings_map_def)
    have "fst (guess_type (types_map sys) path) = Some ''text/html''"
      by (simp add: guess_type_plain_extension [OF noscheme s c] ext types_map_def known)
    then show ?thesis
      by (simp add: resolve_content_type_def)
  qed
  have unknown: "resolve_content_type sys path = ''application/octet-stream''"
    if s: "suffix_map (snd (splitext path)) = None"
      and c: "encodings_map (snd (splitext path)) = None"
      and t: "types_map sys (snd (splitext path)) = None"
      and l: "types_map sys (lower (snd (splitext path))) = None"
  proof -
    have "fst (guess_type (types_map sys) path) = None"
      by (simp add: guess_type_plain_extension [OF noscheme s c] t l)
    then show ?thesis
      by (simp add: resolve_content_type_def)
  qed
  from map ttf html unknown show ?thesis
    by (intro conjI impI)
qed

theorem content_type_by_extension_witness:
  "resolve_content_type site_sys ''app.js.map'' = ''application/octet-stream'' \<and>
   resolve_content_type site_sys ''font.ttf'' = ''application/octet-stream'' \<and>
   resolve_content_type site_sys ''index.html'' = ''text/html'' \<and>
   resolve_content_type site_sys ''data.xyz123'' = ''application/octet-stream''"
proof -
  have empty: "mimetypes_init site_sys [] = None"
    by (simp add: site_sys_def mem_sys_def)
  have known: "mimetypes_init site_sys ''.html'' = Some ''text/html''"
    by (simp add: site_sys_def mem_sys_def)
  have p1: "splittype ''app.js.map'' = (None, ''app.js.map'')"
    by (simp add: splittype_def startswith_def)
  have p2: "splittype ''font.ttf'' = (None, ''font.ttf'')"
    by (simp add: splittype_def startswith_def)
  have p3: "splittype ''index.html'' = (None, ''index.html'')"
    by (simp add: splittype_def startswith_def)
  have p4: "splittype ''data.xyz123'' = (None, ''data.xyz123'')"
    by (simp add: splittype_def startswith_def)
  have e1: "endswith ''app.js.map'' ''.map''"
    by (simp add: endswith_def)
  have e2: "endswith ''font.ttf'' ''.ttf''"
    by (simp add: endswith_def)
  have e3: "snd (splitext ''index.html'') = ''.html''"
    by (simp add: splitext_def Let_def)
  have x: "snd (splitext ''data.xyz123'') = ''.xyz123''"
    by (simp add: splitext_def Let_def)
  have e4: "suffix_map (snd (splitext ''data.xyz123'')) = None"
    by (simp add: x suffix_map_def)
  have e5: "encodings_map (snd (splitext ''data.xyz123'')) = None"
    by (simp add: x encodings_map_def)
  have e6: "types_map site_sys (snd (splitext ''data.xyz123'')) = None"
    by (simp add: x types_map_def site_sys_def mem_sys_def)
  have e7: "types_map site_sys (lower (snd (splitext ''data.xyz123''))) = None"
    by (simp add: x types_map_def site_sys_def mem_sys_def lower_def lower_char_def)
  note t1 = content_type_by_extension [OF p1 empty, THEN conjunct1, THEN mp, OF e1]
  note t2 = content_type_by_extension
    [OF p2 empty, THEN conjunct2, THEN conjunct1, THEN mp, OF e2]
  note t3 = content_type_by_extension
    [OF p3 empty, THEN conjunct2, THEN conjunct2, THEN conjunct1, THEN mp, THEN mp, OF e3 known]
  note t4 = content_type_by_extension
    [OF p4 empty, THEN conjunct2, THEN conjunct2, THEN conjunct2, THEN mp, THEN mp, THEN mp,
     THEN mp, OF e4 e5 e6 e7]
  from t1 t2 t3 t4 show ?thesis
    by (intro conjI)
qed

end
